theory Spec2Isabelle
  imports Complex_Main
begin

section \<open>JavaScript values used by script.js\<close>

text \<open>
  Strings are lists of code units (\<open>string\<close>; a \<open>char\<close> is a code unit below
  256). A JavaScript number that is the result of \<open>parseInt\<close> is either an integer or
  NaN: it is modelled as \<open>int option\<close>, with \<open>None\<close> for NaN. Every comparison
  with NaN is false. Integers are unbounded here; the prices and codes of the script are
  far below \<open>2\<^sup>5\<^sup>3\<close>, where JavaScript numbers are exact.
\<close>

type_synonym jsnum = "int option"

definition js_le :: "jsnum \<Rightarrow> jsnum \<Rightarrow> bool" where
  "js_le a b = (case a of None \<Rightarrow> False | Some x \<Rightarrow> (case b of None \<Rightarrow> False | Some y \<Rightarrow> x \<le> y))"

definition js_lt :: "jsnum \<Rightarrow> jsnum \<Rightarrow> bool" where
  "js_lt a b = (case a of None \<Rightarrow> False | Some x \<Rightarrow> (case b of None \<Rightarrow> False | Some y \<Rightarrow> x < y))"

definition js_ge :: "jsnum \<Rightarrow> jsnum \<Rightarrow> bool" where
  "js_ge a b = (case a of None \<Rightarrow> False | Some x \<Rightarrow> (case b of None \<Rightarrow> False | Some y \<Rightarrow> x \<ge> y))"

text \<open>\<open>!s\<close> on a string: only the empty string is falsy.\<close>

definition js_not :: "string \<Rightarrow> bool" where
  "js_not s = (s = [])"

subsection \<open>parseInt with no radix argument\<close>

text \<open>
  \<open>parseInt(s)\<close>: leading white space is skipped, one sign is read, a prefix \<open>0x\<close> or
  \<open>0X\<close> selects radix 16 (radix 10 otherwise), and the longest prefix of digits of that
  radix is the value. With no digit the result is NaN. Whatever follows the digits is
  ignored.
\<close>

definition is_ws :: "char \<Rightarrow> bool" where
  "is_ws c = (of_char c \<in> {9, 10, 11, 12, 13, 32, 160 :: nat})"

definition digit_val :: "char \<Rightarrow> nat option" where
  "digit_val c =
     (let n = (of_char c :: nat) in
      if 48 \<le> n \<and> n \<le> 57 then Some (n - 48)
      else if 97 \<le> n \<and> n \<le> 122 then Some (n - 87)
      else if 65 \<le> n \<and> n \<le> 90 then Some (n - 55)
      else None)"

definition radix_digit :: "nat \<Rightarrow> char \<Rightarrow> nat option" where
  "radix_digit R c = (case digit_val c of None \<Rightarrow> None | Some d \<Rightarrow> if d < R then Some d else None)"

definition is_radix_digit :: "nat \<Rightarrow> char \<Rightarrow> bool" where
  "is_radix_digit R c = (radix_digit R c \<noteq> None)"

definition digits_value :: "nat \<Rightarrow> string \<Rightarrow> nat" where
  "digits_value R Z = foldl (\<lambda>a c. a * R + (case radix_digit R c of None \<Rightarrow> 0 | Some d \<Rightarrow> d)) 0 Z"

fun strip_sign :: "string \<Rightarrow> int \<times> string" where
  "strip_sign [] = (1, [])"
| "strip_sign (c # cs) =
     (if c = CHR ''-'' then (- 1, cs) else if c = CHR ''+'' then (1, cs) else (1, c # cs))"

fun strip_prefix :: "string \<Rightarrow> nat \<times> string" where
  "strip_prefix (c # d # cs) =
     (if c = CHR ''0'' \<and> (d = CHR ''x'' \<or> d = CHR ''X'') then (16, cs) else (10, c # d # cs))"
| "strip_prefix cs = (10, cs)"

definition parseInt :: "string \<Rightarrow> jsnum" where
  "parseInt s =
     (let (sign, S1) = strip_sign (dropWhile is_ws s);
          (R, S2) = strip_prefix S1;
          Z = takeWhile (is_radix_digit R) S2
      in if Z = [] then None else Some (sign * int (digits_value R Z)))"

subsection \<open>split\<close>

text \<open>\<open>s.split(c)\<close> for a one-character separator: never an empty array.\<close>

fun split :: "char \<Rightarrow> string \<Rightarrow> string list" where
  "split sep [] = [[]]"
| "split sep (c # cs) =
     (if c = sep then [] # split sep cs
      else (c # hd (split sep cs)) # tl (split sep cs))"

subsection \<open>Numbers to strings\<close>

text \<open>
  \<open>String(n)\<close> and \<open>"..." + n\<close> for an integer \<open>n\<close>: its decimal digits, after a minus
  sign when it is negative. (JavaScript prints an integer this way while its absolute
  value is below \<open>10\<^sup>2\<^sup>1\<close>.)
\<close>

definition digit_char :: "nat \<Rightarrow> char" where
  "digit_char d = char_of (48 + d)"

fun nat_to_string :: "nat \<Rightarrow> string" where
  "nat_to_string n = (if n < 10 then [digit_char n] else nat_to_string (n div 10) @ [digit_char (n mod 10)])"

declare nat_to_string.simps [simp del]

definition number_to_string :: "int \<Rightarrow> string" where
  "number_to_string i = (if i < 0 then CHR ''-'' # nat_to_string (nat (- i)) else nat_to_string (nat i))"

subsection \<open>JSON.stringify\<close>

text \<open>
  The values that a booking record consists of: \<open>null\<close>, integers, strings, and
  objects as the lists of their properties in order.
\<close>

datatype json = JNull | JNumber int | JString string | JObject "(string \<times> json) list"

text \<open>
  A string is quoted with the short escapes for backspace, tab, line feed, form feed,
  carriage return, the double quote and the backslash, and \<open>\u00XX\<close> in lower-case
  hexadecimal for the other code units below 32.
\<close>

definition dquote :: char where
  "dquote = CHR 0x22"

definition backslash :: char where
  "backslash = CHR 0x5C"

definition newline :: char where
  "newline = CHR 0x0A"

definition hex_char :: "nat \<Rightarrow> char" where
  "hex_char d = (if d < 10 then char_of (48 + d) else char_of (87 + d))"

definition json_escape :: "char \<Rightarrow> string" where
  "json_escape c =
     (let n = (of_char c :: nat) in
      if n = 8 then [backslash, CHR ''b'']
      else if n = 9 then [backslash, CHR ''t'']
      else if n = 10 then [backslash, CHR ''n'']
      else if n = 12 then [backslash, CHR ''f'']
      else if n = 13 then [backslash, CHR ''r'']
      else if n = 34 then [backslash, dquote]
      else if n = 92 then [backslash, backslash]
      else if n < 32 then [backslash, CHR ''u'', CHR ''0'', CHR ''0'', hex_char (n div 16), hex_char (n mod 16)]
      else [c])"

definition quote :: "string \<Rightarrow> string" where
  "quote s = dquote # concat (map json_escape s) @ [dquote]"

text \<open>
  \<open>serialize gap indent v\<close> is the text of \<open>v\<close>. With an empty \<open>gap\<close> the
  properties of an object are separated by commas; otherwise each property goes on a
  line of its own, indented by one more \<open>gap\<close> than the object, with a space after
  the colon. An object with no property is \<open>{}\<close>.
\<close>

fun join :: "string \<Rightarrow> string list \<Rightarrow> string" where
  "join sep [] = []"
| "join sep [x] = x"
| "join sep (x # y # ys) = x @ sep @ join sep (y # ys)"

fun serialize :: "string \<Rightarrow> string \<Rightarrow> json \<Rightarrow> string"
  and serialize_properties :: "string \<Rightarrow> string \<Rightarrow> (string \<times> json) list \<Rightarrow> string list" where
  "serialize gap indent JNull = ''null''"
| "serialize gap indent (JNumber i) = number_to_string i"
| "serialize gap indent (JString s) = quote s"
| "serialize gap indent (JObject ms) =
     (let stepback = indent;
          indent' = indent @ gap;
          partial = serialize_properties gap indent' ms
      in if partial = [] then ''{}''
         else if gap = [] then ''{'' @ join '','' partial @ ''}''
         else ''{'' @ [newline] @ indent' @ join ('','' @ [newline] @ indent') partial
                @ [newline] @ stepback @ ''}'')"
| "serialize_properties gap indent [] = []"
| "serialize_properties gap indent ((k, v) # ms) =
     (quote k @ '':'' @ (if gap = [] then [] else '' '') @ serialize gap indent v)
     # serialize_properties gap indent ms"

text \<open>\<open>JSON.stringify(v)\<close> and \<open>JSON.stringify(v, null, 2)\<close>.\<close>

definition JSON_stringify :: "json \<Rightarrow> string" where
  "JSON_stringify v = serialize [] [] v"

definition JSON_stringify_2 :: "json \<Rightarrow> string" where
  "JSON_stringify_2 v = serialize ''  '' [] v"

subsection \<open>JSON.parse\<close>

text \<open>
  A parser for the JSON texts of such values, with white space allowed between tokens.
  Each parsing function returns what it has read and the rest of the text. \<open>None\<close>
  is a text that is not JSON, or one with an array, a boolean, a fraction or an exponent,
  or a \<open>\u\<close> escape above 255, which no text written by \<open>serialize\<close> contains.
  The first argument of \<open>parse_value\<close> and \<open>parse_members\<close> bounds the number of
  nested calls; \<open>JSON_parse\<close> gives them the length of the text, and every call
  consumes a character first.
\<close>

definition is_json_ws :: "char \<Rightarrow> bool" where
  "is_json_ws c = (of_char c \<in> {9, 10, 13, 32 :: nat})"

definition skip_ws :: "string \<Rightarrow> string" where
  "skip_ws s = dropWhile is_json_ws s"

definition unescape :: "char \<Rightarrow> char option" where
  "unescape e =
     (if e = CHR ''b'' then Some (CHR 0x08)
      else if e = CHR ''t'' then Some (CHR 0x09)
      else if e = CHR ''n'' then Some (CHR 0x0A)
      else if e = CHR ''f'' then Some (CHR 0x0C)
      else if e = CHR ''r'' then Some (CHR 0x0D)
      else if e = dquote then Some dquote
      else if e = backslash then Some backslash
      else if e = CHR ''/'' then Some (CHR ''/'')
      else None)"

definition hex4 :: "char \<Rightarrow> char \<Rightarrow> char \<Rightarrow> char \<Rightarrow> nat option" where
  "hex4 a b c d =
     (if list_all (is_radix_digit 16) [a, b, c, d] then Some (digits_value 16 [a, b, c, d]) else None)"

definition cons_result :: "char \<Rightarrow> (string \<times> string) option \<Rightarrow> (string \<times> string) option" where
  "cons_result c r = (case r of None \<Rightarrow> None | Some (s, rest) \<Rightarrow> Some (c # s, rest))"

fun parse_string_body :: "string \<Rightarrow> (string \<times> string) option" where
  "parse_string_body [] = None"
| "parse_string_body (c # cs) =
     (if c = dquote then Some ([], cs)
      else if c = backslash then
        (case cs of
           [] \<Rightarrow> None
         | e # r \<Rightarrow>
             if e = CHR ''u'' then
               (case r of
                  h1 # h2 # h3 # h4 # r' \<Rightarrow>
                    (case hex4 h1 h2 h3 h4 of
                       None \<Rightarrow> None
                     | Some n \<Rightarrow> if n < 256 then cons_result (char_of n) (parse_string_body r') else None)
                | _ \<Rightarrow> None)
             else (case unescape e of None \<Rightarrow> None | Some ch \<Rightarrow> cons_result ch (parse_string_body r)))
      else if (of_char c :: nat) < 32 then None
      else cons_result c (parse_string_body cs))"

definition parse_number :: "string \<Rightarrow> (int \<times> string) option" where
  "parse_number s =
     (let neg = (s \<noteq> [] \<and> hd s = CHR ''-'');
          s1 = (if neg then tl s else s);
          ds = takeWhile (is_radix_digit 10) s1;
          rest = dropWhile (is_radix_digit 10) s1
      in if ds = [] then None
         else if hd ds = CHR ''0'' \<and> 1 < length ds then None
         else if rest \<noteq> [] \<and> hd rest \<in> {CHR ''.'', CHR ''e'', CHR ''E''} then None
         else Some ((if neg then - 1 else 1) * int (digits_value 10 ds), rest))"

fun parse_value :: "nat \<Rightarrow> string \<Rightarrow> (json \<times> string) option"
  and parse_members :: "nat \<Rightarrow> string \<Rightarrow> ((string \<times> json) list \<times> string) option" where
  "parse_value 0 s = None"
| "parse_value (Suc n) s =
     (if s = [] then None
      else if hd s = CHR ''n'' then
        (if take 4 s = ''null'' then Some (JNull, drop 4 s) else None)
      else if hd s = dquote then
        (case parse_string_body (tl s) of None \<Rightarrow> None | Some (x, r) \<Rightarrow> Some (JString x, r))
      else if hd s = CHR ''{'' then
        (let r = skip_ws (tl s) in
         if r \<noteq> [] \<and> hd r = CHR ''}'' then Some (JObject [], tl r)
         else (case parse_members n r of None \<Rightarrow> None | Some (ms, r') \<Rightarrow> Some (JObject ms, r')))
      else (case parse_number s of None \<Rightarrow> None | Some (i, r) \<Rightarrow> Some (JNumber i, r)))"
| "parse_members 0 s = None"
| "parse_members (Suc n) s =
     (if s \<noteq> [] \<and> hd s = dquote then
        (case parse_string_body (tl s) of
           None \<Rightarrow> None
         | Some (k, r1) \<Rightarrow>
             (let r2 = skip_ws r1 in
              if r2 \<noteq> [] \<and> hd r2 = CHR '':'' then
                (case parse_value n (skip_ws (tl r2)) of
                   None \<Rightarrow> None
                 | Some (v, r3) \<Rightarrow>
                     (let r4 = skip_ws r3 in
                      if r4 \<noteq> [] \<and> hd r4 = CHR '','' then
                        (case parse_members n (skip_ws (tl r4)) of
                           None \<Rightarrow> None
                         | Some (ms, r5) \<Rightarrow> Some ((k, v) # ms, r5))
                      else if r4 \<noteq> [] \<and> hd r4 = CHR ''}'' then Some ([(k, v)], tl r4)
                      else None))
              else None))
      else None)"

definition JSON_parse :: "string \<Rightarrow> json option" where
  "JSON_parse s =
     (case parse_value (length s) (skip_ws s) of
        None \<Rightarrow> None
      | Some (v, rest) \<Rightarrow> if skip_ws rest = [] then Some v else None)"

subsection \<open>encodeURIComponent and decodeURIComponent\<close>

text \<open>
  \<open>encodeURIComponent\<close> keeps letters, digits and \<open>- _ . ! ~ * ' ( )\<close>, and writes
  every other code unit as the bytes of its UTF-8 encoding, each as \<open>%XX\<close> in
  upper-case hexadecimal: one byte below 128, two bytes from 128 to 255.
  \<open>decodeURIComponent\<close> reads them back; \<open>None\<close> is a malformed escape, or a
  code unit above 255.
\<close>

definition uri_unreserved :: "char \<Rightarrow> bool" where
  "uri_unreserved c =
     (let n = (of_char c :: nat) in
      (65 \<le> n \<and> n \<le> 90) \<or> (97 \<le> n \<and> n \<le> 122) \<or> (48 \<le> n \<and> n \<le> 57) \<or>
      n \<in> {45, 95, 46, 33, 126, 42, 39, 40, 41})"

definition upper_hex_char :: "nat \<Rightarrow> char" where
  "upper_hex_char d = (if d < 10 then char_of (48 + d) else char_of (55 + d))"

definition percent :: "nat \<Rightarrow> string" where
  "percent b = [CHR ''%'', upper_hex_char (b div 16), upper_hex_char (b mod 16)]"

definition uri_encode_char :: "char \<Rightarrow> string" where
  "uri_encode_char c =
     (let n = (of_char c :: nat) in
      if uri_unreserved c then [c]
      else if n < 128 then percent n
      else percent (192 + n div 64) @ percent (128 + n mod 64))"

definition encodeURIComponent :: "string \<Rightarrow> string" where
  "encodeURIComponent s = concat (map uri_encode_char s)"

definition hex2 :: "char \<Rightarrow> char \<Rightarrow> nat option" where
  "hex2 a b = (if is_radix_digit 16 a \<and> is_radix_digit 16 b then Some (digits_value 16 [a, b]) else None)"

definition cons_option :: "char \<Rightarrow> string option \<Rightarrow> string option" where
  "cons_option c r = (case r of None \<Rightarrow> None | Some s \<Rightarrow> Some (c # s))"

fun decodeURIComponent :: "string \<Rightarrow> string option" where
  "decodeURIComponent [] = Some []"
| "decodeURIComponent (c # cs) =
     (if c \<noteq> CHR ''%'' then cons_option c (decodeURIComponent cs)
      else
        (case cs of
           h1 # h2 # r \<Rightarrow>
             (case hex2 h1 h2 of
                None \<Rightarrow> None
              | Some b \<Rightarrow>
                  if b < 128 then cons_option (char_of b) (decodeURIComponent r)
                  else if b = 194 \<or> b = 195 then
                    (case r of
                       p # h3 # h4 # r' \<Rightarrow>
                         if p = CHR ''%'' then
                           (case hex2 h3 h4 of
                              None \<Rightarrow> None
                            | Some b2 \<Rightarrow>
                                if 128 \<le> b2 \<and> b2 < 192
                                then cons_option (char_of ((b - 192) * 64 + (b2 - 128)))
                                       (decodeURIComponent r')
                                else None)
                         else None
                     | _ \<Rightarrow> None)
                  else None)
         | _ \<Rightarrow> None))"

subsection \<open>Date.prototype.toISOString\<close>

text \<open>
  A \<open>Date\<close> is modelled by its UTC fields. For a year from 0 to 9999
  \<open>toISOString\<close> prints them as \<open>YYYY-MM-DDTHH:mm:ss.sssZ\<close>, each field padded
  with zeros.
\<close>

record date =
  year :: nat
  month :: nat
  day :: nat
  hours :: nat
  minutes :: nat
  seconds :: nat
  milliseconds :: nat

definition pad2 :: "nat \<Rightarrow> string" where
  "pad2 n = [digit_char (n div 10), digit_char (n mod 10)]"

definition pad3 :: "nat \<Rightarrow> string" where
  "pad3 n = [digit_char (n div 100), digit_char (n div 10 mod 10), digit_char (n mod 10)]"

definition pad4 :: "nat \<Rightarrow> string" where
  "pad4 n = [digit_char (n div 1000), digit_char (n div 100 mod 10), digit_char (n div 10 mod 10),
             digit_char (n mod 10)]"

definition toISOString :: "date \<Rightarrow> string" where
  "toISOString d =
     pad4 (year d) @ ''-'' @ pad2 (month d) @ ''-'' @ pad2 (day d) @ ''T'' @
     pad2 (hours d) @ '':'' @ pad2 (minutes d) @ '':'' @ pad2 (seconds d) @ ''.'' @
     pad3 (milliseconds d) @ ''Z''"

text \<open>What \<open>new Date()\<close> can return: the fields of a moment in the years 0 to 9999.\<close>

definition valid_date :: "date \<Rightarrow> bool" where
  "valid_date d =
     (year d \<le> 9999 \<and> 1 \<le> month d \<and> month d \<le> 12 \<and> 1 \<le> day d \<and> day d \<le> 31 \<and>
      hours d < 24 \<and> minutes d < 60 \<and> seconds d < 60 \<and> milliseconds d < 1000)"

section \<open>The search form handler\<close>

record flight_offer =
  airline :: string
  flight :: string
  time :: string
  price :: int

text \<open>
  \<open>getPrice\<close>: \<open>Math.floor(Math.random() * 5000) + 4000\<close>. The argument \<open>r\<close>
  is the draw: the number with \<open>0 \<le> r < 1\<close> for which the product that JavaScript
  computes is \<open>r * 5000\<close>. (\<open>Math.random()\<close> is a double of at least 0 and at most
  \<open>1 - 2\<^sup>-\<^sup>5\<^sup>3\<close>, and the product of the latter with 5000 rounds to
  \<open>5000 - 2\<^sup>-\<^sup>4\<^sup>0\<close>: the computed product is at least 0 and below 5000.)
\<close>

definition getPrice :: "real \<Rightarrow> int" where
  "getPrice r = \<lfloor>r * 5000\<rfloor> + 4000"

text \<open>The array literal \<open>flights\<close>: three calls of \<open>getPrice\<close>, in this order.\<close>

definition flights :: "real \<Rightarrow> real \<Rightarrow> real \<Rightarrow> flight_offer list" where
  "flights r1 r2 r3 =
     [\<lparr>airline = ''Air India'', flight = ''AI202'', time = ''10:00'', price = getPrice r1\<rparr>,
      \<lparr>airline = ''IndiGo'', flight = ''6E305'', time = ''14:30'', price = getPrice r2\<rparr>,
      \<lparr>airline = ''SpiceJet'', flight = ''SG101'', time = ''19:45'', price = getPrice r3\<rparr>]"

text \<open>
  The values of the form's fields, as the timer callback reads them. Origin and
  destination only go to the display of the results.
\<close>

record search_form =
  from_value :: string
  to_value :: string
  airline_value :: string
  price_value :: string
  time_value :: string

text \<open>The predicate given to \<open>flights.filter\<close>.\<close>

definition keeps :: "string \<Rightarrow> jsnum \<Rightarrow> string \<Rightarrow> flight_offer \<Rightarrow> bool" where
  "keeps airline' maxPrice timeSlot f =
     (let hour = parseInt (split CHR '':'' (time f) ! 0) in
      (js_not airline' \<or> airline f = airline') \<and>
      js_le (Some (price f)) maxPrice \<and>
      (js_not timeSlot \<or>
       (timeSlot = ''morning'' \<and> js_lt hour (Some 12)) \<or>
       (timeSlot = ''afternoon'' \<and> js_ge hour (Some 12) \<and> js_lt hour (Some 18)) \<or>
       (timeSlot = ''evening'' \<and> js_ge hour (Some 18))))"

text \<open>
  The timer callback of the submit handler, up to the call of \<open>displayResults\<close>: the
  list \<open>filtered\<close>.
\<close>

definition search :: "search_form \<Rightarrow> real \<Rightarrow> real \<Rightarrow> real \<Rightarrow> flight_offer list" where
  "search form r1 r2 r3 =
     (let airline' = airline_value form;
          maxPrice = parseInt (price_value form);
          timeSlot = time_value form
      in filter (keeps airline' maxPrice timeSlot) (flights r1 r2 r3))"

section \<open>The booking workflow\<close>

record booking =
  passenger :: string
  email :: string
  booked_flight :: "flight_offer option"
  pnr :: string
  timestamp :: string

text \<open>
  \<open>JSON.stringify\<close> reads an object as the list of its properties, in the order of
  the object literal that created it. The property \<open>flight\<close> of a booking is the
  selected flight, or \<open>null\<close>.
\<close>

definition json_of_flight :: "flight_offer \<Rightarrow> json" where
  "json_of_flight f =
     JObject [(''airline'', JString (airline f)), (''flight'', JString (flight f)),
              (''time'', JString (time f)), (''price'', JNumber (price f))]"

definition json_of_booking :: "booking \<Rightarrow> json" where
  "json_of_booking b =
     JObject [(''passenger'', JString (passenger b)), (''email'', JString (email b)),
              (''flight'', (case booked_flight b of None \<Rightarrow> JNull | Some f \<Rightarrow> json_of_flight f)),
              (''pnr'', JString (pnr b)), (''timestamp'', JString (timestamp b))]"

text \<open>The link element that \<open>downloadReceipt\<close> creates: its two attributes.\<close>

record link =
  href :: string
  download :: string

text \<open>
  The state of the page: the two global variables of the script (\<open>None\<close> is
  \<open>null\<close>), the local storage, the parts of the document that the booking functions
  write, and the links clicked so far (the files offered to the user).
\<close>

record page =
  selectedFlight :: "flight_offer option"
  bookingDetails :: "booking option"
  localStorage :: "string \<rightharpoonup> string"
  bookingForm_display :: string
  receiptSection_display :: string
  pnrDisplay_innerText :: string
  clicked :: "link list"

datatype js_error = TypeError

definition openBooking :: "flight_offer \<Rightarrow> page \<Rightarrow> page" where
  "openBooking flight' s = s\<lparr>selectedFlight := Some flight', bookingForm_display := ''block''\<rparr>"

text \<open>
  \<open>confirmBooking\<close>: \<open>name\<close> and \<open>email'\<close> are the values of the two input
  fields, \<open>now\<close> is the value of \<open>new Date()\<close>, and \<open>r\<close> is the draw, as in
  \<open>getPrice\<close>: the product that JavaScript computes is \<open>r * 1000000\<close>. (The
  product of \<open>1 - 2\<^sup>-\<^sup>5\<^sup>3\<close> and 1000000 rounds to \<open>1000000 - 2\<^sup>-\<^sup>3\<^sup>3\<close>, so the
  computed product is below 1000000.) \<open>localStorage.setItem\<close> is taken to accept the
  write.
\<close>

definition confirmBooking :: "string \<Rightarrow> string \<Rightarrow> real \<Rightarrow> date \<Rightarrow> page \<Rightarrow> page" where
  "confirmBooking name email' r now s =
     (let pnr' = ''PNR'' @ number_to_string \<lfloor>r * 1000000\<rfloor>;
          details = \<lparr>passenger = name, email = email', booked_flight = selectedFlight s,
                     pnr = pnr', timestamp = toISOString now\<rparr>
      in s\<lparr>bookingDetails := Some details,
            localStorage := (localStorage s)(''booking'' \<mapsto> JSON_stringify (json_of_booking details)),
            pnrDisplay_innerText := ''Your PNR: '' @ pnr',
            bookingForm_display := ''none'',
            receiptSection_display := ''block''\<rparr>)"

text \<open>
  \<open>downloadReceipt\<close>: with no booking, \<open>JSON.stringify(null, null, 2)\<close> is the text
  \<open>null\<close> and reading \<open>bookingDetails.pnr\<close> throws a TypeError before the link is
  added or clicked. Otherwise the link is added to the document, clicked and removed.
\<close>

definition data_prefix :: string where
  "data_prefix = ''data:text/json;charset=utf-8,''"

definition downloadReceipt :: "page \<Rightarrow> js_error + page" where
  "downloadReceipt s =
     (case bookingDetails s of
        None \<Rightarrow> Inl TypeError
      | Some b \<Rightarrow>
          (let dataStr = data_prefix @ encodeURIComponent (JSON_stringify_2 (json_of_booking b));
               link' = \<lparr>href = dataStr, download = ''booking_'' @ pnr b @ ''.json''\<rparr>
           in Inr (s\<lparr>clicked := clicked s @ [link']\<rparr>)))"

text \<open>
  The content of the file that a clicked link offers: the data of its \<open>data:\<close> URL,
  percent-decoded.
\<close>

definition payload :: "link \<Rightarrow> string option" where
  "payload l =
     (if take (length data_prefix) (href l) = data_prefix
      then decodeURIComponent (drop (length data_prefix) (href l)) else None)"

subsection \<open>Sessions\<close>

text \<open>
  A session starts when the script is loaded: both variables are \<open>null\<close>, and the
  local storage is what earlier sessions left. It goes on with calls of the three
  functions; a call that throws leaves the page as it was.
\<close>

definition load :: "page \<Rightarrow> page" where
  "load s = s\<lparr>selectedFlight := None, bookingDetails := None\<rparr>"

datatype event =
  SelectOffer flight_offer
  | ConfirmBooking string string real date
  | DownloadReceipt

fun step :: "event \<Rightarrow> page \<Rightarrow> page" where
  "step (SelectOffer x) s = openBooking x s"
| "step (ConfirmBooking name email' r now) s = confirmBooking name email' r now s"
| "step DownloadReceipt s = (case downloadReceipt s of Inl e \<Rightarrow> s | Inr s' \<Rightarrow> s')"

fun run :: "event list \<Rightarrow> page \<Rightarrow> page" where
  "run [] s = s"
| "run (e # es) s = run es (step e s)"

text \<open>The offer given to the last \<open>SelectOffer\<close> of a session, if there is one.\<close>

fun last_selected :: "event list \<Rightarrow> flight_offer option" where
  "last_selected [] = None"
| "last_selected (e # es) =
     (case last_selected es of
        Some x \<Rightarrow> Some x
      | None \<Rightarrow> (case e of SelectOffer x \<Rightarrow> Some x | _ \<Rightarrow> None))"

text \<open>A page with nothing on it and an empty storage, and a moment, for examples.\<close>

definition blank_page :: page where
  "blank_page =
     \<lparr>selectedFlight = None, bookingDetails = None, localStorage = Map.empty,
      bookingForm_display = ''none'', receiptSection_display = ''none'',
      pnrDisplay_innerText = [], clicked = []\<rparr>"

definition a_moment :: date where
  "a_moment = \<lparr>year = 2025, month = 10, day = 12, hours = 8, minutes = 30, seconds = 5,
                milliseconds = 42\<rparr>"

subsection \<open>The contract of the search, in the words of the specification\<close>

text \<open>
  The hour component of an \<open>HH:MM\<close> string, the three time slots as intervals of hours,
  and the three conditions a candidate has to satisfy. A filter is set when its string
  is not empty.
\<close>

definition spec_hour :: "string \<Rightarrow> int" where
  "spec_hour t = int (10 * (of_char (t ! 0) - 48) + (of_char (t ! 1) - 48))"

definition spec_in_slot :: "string \<Rightarrow> int \<Rightarrow> bool" where
  "spec_in_slot slot h =
     ((slot = ''morning'' \<and> 0 \<le> h \<and> h < 12) \<or>
      (slot = ''afternoon'' \<and> 12 \<le> h \<and> h < 18) \<or>
      (slot = ''evening'' \<and> 18 \<le> h \<and> h < 24))"

definition spec_satisfies :: "string \<Rightarrow> int \<Rightarrow> string \<Rightarrow> flight_offer \<Rightarrow> bool" where
  "spec_satisfies airlineFilter maxPrice timeSlot f =
     ((airlineFilter \<noteq> [] \<longrightarrow> airline f = airlineFilter) \<and>
      price f \<le> maxPrice \<and>
      (timeSlot \<noteq> [] \<longrightarrow> spec_in_slot timeSlot (spec_hour (time f))))"

subsection \<open>The contract of the booking workflow, in the words of the specification\<close>


text \<open>
  A timestamp in the ISO-8601 format \<open>YYYY-MM-DDTHH:mm:ss.sssZ\<close>: the separators in
  their places, digits elsewhere, and month, day, hour, minute and second in range.
\<close>

definition two_digits :: "char \<Rightarrow> char \<Rightarrow> nat option" where
  "two_digits a b =
     (case radix_digit 10 a of
        None \<Rightarrow> None
      | Some x \<Rightarrow> (case radix_digit 10 b of None \<Rightarrow> None | Some y \<Rightarrow> Some (10 * x + y)))"

definition in_range :: "char \<Rightarrow> char \<Rightarrow> nat \<Rightarrow> nat \<Rightarrow> bool" where
  "in_range a b lo hi = (case two_digits a b of None \<Rightarrow> False | Some v \<Rightarrow> lo \<le> v \<and> v \<le> hi)"

definition iso8601 :: "string \<Rightarrow> bool" where
  "iso8601 s =
     (length s = 24 \<and>
      s ! 4 = CHR ''-'' \<and> s ! 7 = CHR ''-'' \<and> s ! 10 = CHR ''T'' \<and> s ! 13 = CHR '':'' \<and>
      s ! 16 = CHR '':'' \<and> s ! 19 = CHR ''.'' \<and> s ! 23 = CHR ''Z'' \<and>
      list_all (is_radix_digit 10) [s ! 0, s ! 1, s ! 2, s ! 3, s ! 20, s ! 21, s ! 22] \<and>
      in_range (s ! 5) (s ! 6) 1 12 \<and> in_range (s ! 8) (s ! 9) 1 31 \<and>
      in_range (s ! 11) (s ! 12) 0 23 \<and> in_range (s ! 14) (s ! 15) 0 59 \<and>
      in_range (s ! 17) (s ! 18) 0 59)"

text \<open>The value of a property of a parsed object.\<close>

fun json_get :: "json \<Rightarrow> string \<Rightarrow> json option" where
  "json_get (JObject ms) k = map_of ms k"
| "json_get v k = None"

text \<open>
  A parsed object read as a flight offer, and as a booking record: it has exactly the
  properties of the record, and each is a value of the field's type. The result is the
  record that the object is deep-equal to.
\<close>

fun json_keys :: "json \<Rightarrow> string list" where
  "json_keys (JObject ms) = map fst ms"
| "json_keys v = []"

definition as_string :: "json option \<Rightarrow> string option" where
  "as_string v = (case v of Some (JString s) \<Rightarrow> Some s | _ \<Rightarrow> None)"

definition as_number :: "json option \<Rightarrow> int option" where
  "as_number v = (case v of Some (JNumber i) \<Rightarrow> Some i | _ \<Rightarrow> None)"

definition read_flight :: "json \<Rightarrow> flight_offer option" where
  "read_flight v =
     (if json_keys v = [''airline'', ''flight'', ''time'', ''price''] then
        (case as_string (json_get v ''airline'') of None \<Rightarrow> None | Some a \<Rightarrow>
        (case as_string (json_get v ''flight'') of None \<Rightarrow> None | Some n \<Rightarrow>
        (case as_string (json_get v ''time'') of None \<Rightarrow> None | Some t \<Rightarrow>
        (case as_number (json_get v ''price'') of None \<Rightarrow> None | Some p \<Rightarrow>
           Some \<lparr>airline = a, flight = n, time = t, price = p\<rparr>))))
      else None)"

definition read_selection :: "json option \<Rightarrow> flight_offer option option" where
  "read_selection v =
     (case v of
        None \<Rightarrow> None
      | Some JNull \<Rightarrow> Some None
      | Some w \<Rightarrow> (case read_flight w of None \<Rightarrow> None | Some f \<Rightarrow> Some (Some f)))"

definition read_booking :: "json \<Rightarrow> booking option" where
  "read_booking v =
     (if json_keys v = [''passenger'', ''email'', ''flight'', ''pnr'', ''timestamp''] then
        (case as_string (json_get v ''passenger'') of None \<Rightarrow> None | Some n \<Rightarrow>
        (case as_string (json_get v ''email'') of None \<Rightarrow> None | Some e \<Rightarrow>
        (case read_selection (json_get v ''flight'') of None \<Rightarrow> None | Some f \<Rightarrow>
        (case as_string (json_get v ''pnr'') of None \<Rightarrow> None | Some c \<Rightarrow>
        (case as_string (json_get v ''timestamp'') of None \<Rightarrow> None | Some t \<Rightarrow>
           Some \<lparr>passenger = n, email = e, booked_flight = f, pnr = c, timestamp = t\<rparr>)))))
      else None)"

text \<open>
  Formatted JSON: the lines of the receipt of a booking record. Each property is on a
  line of its own, a name in double quotes, a colon, a space and the value; the
  properties of the record are indented by two spaces and those of its flight by four.
\<close>

definition in_quotes :: "string \<Rightarrow> string" where
  "in_quotes s = dquote # s @ [dquote]"

definition receipt_lines :: "booking \<Rightarrow> string list" where
  "receipt_lines b =
     [''{'',
      ''  '' @ in_quotes ''passenger'' @ '': '' @ quote (passenger b) @ '','',
      ''  '' @ in_quotes ''email'' @ '': '' @ quote (email b) @ '',''] @
     (case booked_flight b of
        None \<Rightarrow> [''  '' @ in_quotes ''flight'' @ '': null,'']
      | Some f \<Rightarrow>
          [''  '' @ in_quotes ''flight'' @ '': {'',
           ''    '' @ in_quotes ''airline'' @ '': '' @ quote (airline f) @ '','',
           ''    '' @ in_quotes ''flight'' @ '': '' @ quote (flight f) @ '','',
           ''    '' @ in_quotes ''time'' @ '': '' @ quote (time f) @ '','',
           ''    '' @ in_quotes ''price'' @ '': '' @ number_to_string (price f),
           ''  },'']) @
     [''  '' @ in_quotes ''pnr'' @ '': '' @ quote (pnr b) @ '','',
      ''  '' @ in_quotes ''timestamp'' @ '': '' @ quote (timestamp b),
      ''}'']"

text \<open>
  The booking in memory and the entry of the storage agree: there is a booking, and
  the text stored under the key \<open>booking\<close> parses to an object that, read as a
  booking record, is the record in memory.
\<close>

definition agrees :: "page \<Rightarrow> bool" where
  "agrees s =
     (case bookingDetails s of
        None \<Rightarrow> False
      | Some b \<Rightarrow>
          (case localStorage s ''booking'' of
             None \<Rightarrow> False
           | Some txt \<Rightarrow>
               (case JSON_parse txt of None \<Rightarrow> False | Some v \<Rightarrow> read_booking v = Some b)))"

subsection \<open>Notions used in the proofs\<close>

text \<open>
  What may follow a JSON number, strings of white space, strings that start with
  something else, and the fuel that parsing a value takes.
\<close>

definition follow_ok :: "string \<Rightarrow> bool" where
  "follow_ok rest = (rest = [] \<or> (\<not> is_radix_digit 10 (hd rest) \<and> hd rest \<notin> {CHR ''.'', CHR ''e'', CHR ''E''}))"

definition ws_only :: "string \<Rightarrow> bool" where
  "ws_only w = list_all is_json_ws w"

fun fuel_of :: "json \<Rightarrow> nat" and fuel_members :: "(string \<times> json) list \<Rightarrow> nat" where
  "fuel_of (JObject ms) = Suc (fuel_members ms)"
| "fuel_of JNull = 1"
| "fuel_of (JNumber i) = 1"
| "fuel_of (JString s) = 1"
| "fuel_members [] = 0"
| "fuel_members ((k, v) # ms) = Suc (max (fuel_of v) (fuel_members ms))"

definition starts_plain :: "string \<Rightarrow> bool" where
  "starts_plain s = (s \<noteq> [] \<and> \<not> is_json_ws (hd s))"

section \<open>Numbers, JSON texts and URI components\<close>

subsection \<open>Decimal digits are read back\<close>

lemma of_char_digit_char: "d < 10 \<Longrightarrow> (of_char (digit_char d) :: nat) = 48 + d"
  by (simp add: digit_char_def)

lemma radix_digit_digit_char: "d < 10 \<Longrightarrow> radix_digit 10 (digit_char d) = Some d"
  by (simp add: radix_digit_def digit_val_def of_char_digit_char)

lemma is_radix_digit_digit_char: "d < 10 \<Longrightarrow> is_radix_digit 10 (digit_char d)"
  by (simp add: is_radix_digit_def radix_digit_digit_char)

lemma digits_value_snoc:
  "digits_value R (xs @ [c]) = digits_value R xs * R + (case radix_digit R c of None \<Rightarrow> 0 | Some d \<Rightarrow> d)"
  by (simp add: digits_value_def)

lemma nat_to_string_digits: "list_all (is_radix_digit 10) (nat_to_string n)"
  by (induction n rule: nat_to_string.induct)
     (subst nat_to_string.simps, simp add: is_radix_digit_digit_char)

lemma nat_to_string_nonempty: "nat_to_string n \<noteq> []"
  by (subst nat_to_string.simps) simp

lemma digits_value_nat_to_string: "digits_value 10 (nat_to_string n) = n"
proof (induction n rule: nat_to_string.induct)
  case (1 n)
  show ?case
  proof (cases "n < 10")
    case True
    then show ?thesis
      by (subst nat_to_string.simps) (simp add: digits_value_def radix_digit_digit_char)
  next
    case False
    then show ?thesis
      using 1 by (subst nat_to_string.simps) (simp add: digits_value_snoc radix_digit_digit_char)
  qed
qed

lemma digit_char_zero: "d < 10 \<Longrightarrow> digit_char d = CHR ''0'' \<Longrightarrow> d = 0"
proof -
  assume d: "d < 10" and e: "digit_char d = CHR ''0''"
  have "(of_char (digit_char d) :: nat) = of_char (CHR ''0'')" by (simp only: e)
  then have "(of_char (digit_char d) :: nat) = 48" by simp
  with d show "d = 0" by (simp add: of_char_digit_char)
qed

lemma hd_nat_to_string: "0 < n \<Longrightarrow> hd (nat_to_string n) \<noteq> CHR ''0''"
proof (induction n rule: nat_to_string.induct)
  case (1 n)
  show ?case
  proof (cases "n < 10")
    case True
    then show ?thesis
      using 1(2) digit_char_zero [of n] by (subst nat_to_string.simps) auto
  next
    case False
    then have "0 < n div 10" by simp
    with 1 False have "hd (nat_to_string (n div 10)) \<noteq> CHR ''0''" by simp
    then show ?thesis
      using False by (subst nat_to_string.simps) (simp add: nat_to_string_nonempty)
  qed
qed

lemma takeWhile_prefix:
  assumes "list_all P xs" and "rest = [] \<or> \<not> P (hd rest)"
  shows "takeWhile P (xs @ rest) = xs" and "dropWhile P (xs @ rest) = rest"
proof -
  have t: "takeWhile P rest = []" and d: "dropWhile P rest = rest"
    using assms(2) by (cases rest; simp)+
  show "takeWhile P (xs @ rest) = xs"
    using assms(1) t by (simp add: takeWhile_append2 list_all_iff)
  show "dropWhile P (xs @ rest) = rest"
    using assms(1) d by (simp add: dropWhile_append2 list_all_iff)
qed

lemma minus_not_digit: "\<not> is_radix_digit 10 (CHR ''-'')"
  by (simp add: is_radix_digit_def radix_digit_def digit_val_def)

lemma parse_number_nat:
  assumes "follow_ok rest"
  shows "parse_number (nat_to_string n @ rest) = Some (int n, rest)"
proof -
  let ?ds = "nat_to_string n"
  have ne: "?ds \<noteq> []" by (rule nat_to_string_nonempty)
  have dg: "list_all (is_radix_digit 10) ?ds" by (rule nat_to_string_digits)
  have hd_dg: "is_radix_digit 10 (hd ?ds)"
    using ne dg by (cases ?ds) simp_all
  have not_neg: "hd (?ds @ rest) \<noteq> CHR ''-''"
    using ne hd_dg minus_not_digit by auto
  have fo: "rest = [] \<or> \<not> is_radix_digit 10 (hd rest)"
    using assms by (auto simp: follow_ok_def)
  have tw: "takeWhile (is_radix_digit 10) (?ds @ rest) = ?ds"
    and dw: "dropWhile (is_radix_digit 10) (?ds @ rest) = rest"
    using takeWhile_prefix [OF dg fo] by simp_all
  have lead: "\<not> (hd ?ds = CHR ''0'' \<and> 1 < length ?ds)"
  proof (cases "n = 0")
    case True
    then show ?thesis by (simp add: nat_to_string.simps)
  next
    case False
    then show ?thesis using hd_nat_to_string [of n] by simp
  qed
  have rest_ok: "\<not> (rest \<noteq> [] \<and> hd rest \<in> {CHR ''.'', CHR ''e'', CHR ''E''})"
    using assms by (auto simp: follow_ok_def)
  show ?thesis
    unfolding parse_number_def Let_def
    using not_neg ne lead rest_ok
    by (simp add: tw dw digits_value_nat_to_string)
qed

lemma parse_number_roundtrip:
  assumes "follow_ok rest"
  shows "parse_number (number_to_string i @ rest) = Some (i, rest)"
proof (cases "i < 0")
  case False
  then show ?thesis
    using parse_number_nat [OF assms, of "nat i"] by (simp add: number_to_string_def)
next
  case True
  let ?ds = "nat_to_string (nat (- i))"
  have ne: "?ds \<noteq> []" by (rule nat_to_string_nonempty)
  have dg: "list_all (is_radix_digit 10) ?ds" by (rule nat_to_string_digits)
  have fo: "rest = [] \<or> \<not> is_radix_digit 10 (hd rest)"
    using assms by (auto simp: follow_ok_def)
  have tw: "takeWhile (is_radix_digit 10) (?ds @ rest) = ?ds"
    and dw: "dropWhile (is_radix_digit 10) (?ds @ rest) = rest"
    using takeWhile_prefix [OF dg fo] by simp_all
  have lead: "\<not> (hd ?ds = CHR ''0'' \<and> 1 < length ?ds)"
    using hd_nat_to_string [of "nat (- i)"] True by simp
  have rest_ok: "\<not> (rest \<noteq> [] \<and> hd rest \<in> {CHR ''.'', CHR ''e'', CHR ''E''})"
    using assms by (auto simp: follow_ok_def)
  have s: "number_to_string i @ rest = CHR ''-'' # (?ds @ rest)"
    using True by (simp add: number_to_string_def)
  show ?thesis
    unfolding s parse_number_def Let_def
    using ne lead rest_ok True
    by (simp add: tw dw digits_value_nat_to_string)
qed
subsection \<open>Quoted strings are read back\<close>

lemma char_eq_iff: "c = d \<longleftrightarrow> (of_char c :: nat) = of_char d"
  by (simp only: of_char_eq_iff)

lemma of_char_hex_char: "d < 16 \<Longrightarrow> (of_char (hex_char d) :: nat) = (if d < 10 then 48 + d else 87 + d)"
  by (simp add: hex_char_def)

lemma radix_digit_hex_char: "d < 16 \<Longrightarrow> radix_digit 16 (hex_char d) = Some d"
  by (simp add: radix_digit_def digit_val_def of_char_hex_char)

lemma radix_digit_16_zero: "radix_digit 16 (CHR ''0'') = Some 0"
  by (simp add: radix_digit_def digit_val_def)

lemma hex4_escape:
  assumes "n < 32"
  shows "hex4 (CHR ''0'') (CHR ''0'') (hex_char (n div 16)) (hex_char (n mod 16)) = Some n"
proof -
  have a: "n div 16 < 16" using assms by simp
  have b: "n mod 16 < 16" by simp
  show ?thesis
    unfolding hex4_def digits_value_def is_radix_digit_def
    by (simp add: radix_digit_hex_char [OF a] radix_digit_hex_char [OF b] radix_digit_16_zero)
qed

lemma parse_escape:
  "parse_string_body (json_escape c @ t) = cons_result c (parse_string_body t)"
proof -
  define n where "n = (of_char c :: nat)"
  have c: "c = char_of n" by (simp add: n_def)
  have n256: "n < 256" by (simp add: n_def)
  consider "n = 8" | "n = 9" | "n = 10" | "n = 12" | "n = 13" | "n = 34" | "n = 92"
    | "n < 32" "n \<notin> {8, 9, 10, 12, 13}" | "32 \<le> n" "n \<noteq> 34" "n \<noteq> 92"
    by fastforce
  then show ?thesis
  proof cases
    case 1
    then have "c = CHR 0x08" by (simp add: char_eq_iff n_def)
    then show ?thesis
      by (simp add: json_escape_def unescape_def backslash_def dquote_def)
  next
    case 2
    then have "c = CHR 0x09" by (simp add: char_eq_iff n_def)
    then show ?thesis
      by (simp add: json_escape_def unescape_def backslash_def dquote_def)
  next
    case 3
    then have "c = CHR 0x0A" by (simp add: char_eq_iff n_def)
    then show ?thesis
      by (simp add: json_escape_def unescape_def backslash_def dquote_def)
  next
    case 4
    then have "c = CHR 0x0C" by (simp add: char_eq_iff n_def)
    then show ?thesis
      by (simp add: json_escape_def unescape_def backslash_def dquote_def)
  next
    case 5
    then have "c = CHR 0x0D" by (simp add: char_eq_iff n_def)
    then show ?thesis
      by (simp add: json_escape_def unescape_def backslash_def dquote_def)
  next
    case 6
    then have "c = CHR 0x22" by (simp add: char_eq_iff n_def)
    then show ?thesis
      by (simp add: json_escape_def unescape_def backslash_def dquote_def)
  next
    case 7
    then have "c = CHR 0x5C" by (simp add: char_eq_iff n_def)
    then show ?thesis
      by (simp add: json_escape_def unescape_def backslash_def dquote_def)
  next
    case 8
    have esc: "json_escape c =
        [backslash, CHR ''u'', CHR ''0'', CHR ''0'', hex_char (n div 16), hex_char (n mod 16)]"
      using 8 by (simp add: json_escape_def Let_def n_def [symmetric])
    show ?thesis
      unfolding esc using 8(1) n256
      by (simp add: hex4_escape c [symmetric] backslash_def dquote_def)
  next
    case 9
    have esc: "json_escape c = [c]"
      using 9 by (simp add: json_escape_def Let_def n_def [symmetric])
    have "c \<noteq> dquote" "c \<noteq> backslash"
      using 9 by (simp_all add: char_eq_iff n_def [symmetric] dquote_def backslash_def)
    then show ?thesis
      unfolding esc using 9(1) by (simp add: n_def [symmetric])
  qed
qed

lemma parse_string_body_roundtrip:
  "parse_string_body (concat (map json_escape s) @ dquote # rest) = Some (s, rest)"
proof (induction s)
  case Nil
  show ?case by simp
next
  case (Cons c s)
  have "parse_string_body (json_escape c @ (concat (map json_escape s) @ dquote # rest))
      = cons_result c (parse_string_body (concat (map json_escape s) @ dquote # rest))"
    by (rule parse_escape)
  then show ?case by (simp add: Cons.IH cons_result_def)
qed

lemma parse_quote: "parse_string_body (tl (quote s @ rest)) = Some (s, rest)"
  using parse_string_body_roundtrip [of s rest] by (simp add: quote_def)

lemma hd_quote: "hd (quote s @ rest) = dquote"
  by (simp add: quote_def)
subsection \<open>Serialized values are read back\<close>

lemma skip_ws_append: "ws_only w \<Longrightarrow> skip_ws (w @ s) = skip_ws s"
  by (simp add: skip_ws_def ws_only_def dropWhile_append2 list_all_iff)

lemma skip_ws_plain: "starts_plain s \<Longrightarrow> skip_ws s = s"
  by (cases s) (simp_all add: skip_ws_def starts_plain_def)

lemma skip_ws_ws_plain: "ws_only w \<Longrightarrow> starts_plain s \<Longrightarrow> skip_ws (w @ s) = s"
  by (simp add: skip_ws_append skip_ws_plain)

lemma ws_only_simps:
  "ws_only []" "ws_only '' ''" "ws_only ''  ''" "ws_only [newline]"
  "ws_only (a @ b) = (ws_only a \<and> ws_only b)"
  "ws_only (newline # a) = ws_only a"
  by (auto simp: ws_only_def is_json_ws_def newline_def)

lemma starts_plain_simps:
  "starts_plain (CHR '','' # s)" "starts_plain (CHR ''}'' # s)" "starts_plain (CHR '':'' # s)"
  "starts_plain (dquote # s)" "starts_plain (quote k @ s)"
  by (simp_all add: starts_plain_def is_json_ws_def dquote_def quote_def)

lemma follow_ok_simps:
  "follow_ok []" "follow_ok (CHR '','' # s)" "follow_ok (CHR ''}'' # s)" "follow_ok (newline # s)"
  by (simp_all add: follow_ok_def is_radix_digit_def radix_digit_def digit_val_def newline_def)

lemma follow_ok_ws: "ws_only w \<Longrightarrow> follow_ok s \<Longrightarrow> s \<noteq> [] \<Longrightarrow> follow_ok (w @ s)"
  by (cases w)
     (auto simp: follow_ok_def ws_only_def is_json_ws_def is_radix_digit_def radix_digit_def
        digit_val_def char_eq_iff)

lemma hd_number_to_string:
  "number_to_string i \<noteq> [] \<and>
   (hd (number_to_string i) = CHR ''-'' \<or> is_radix_digit 10 (hd (number_to_string i)))"
proof (cases "i < 0")
  case True
  then show ?thesis by (simp add: number_to_string_def)
next
  case False
  have "nat_to_string (nat i) \<noteq> []" by (rule nat_to_string_nonempty)
  moreover have "list_all (is_radix_digit 10) (nat_to_string (nat i))"
    by (rule nat_to_string_digits)
  ultimately show ?thesis
    using False by (cases "nat_to_string (nat i)") (simp_all add: number_to_string_def)
qed

lemma number_head:
  assumes "c = CHR ''-'' \<or> is_radix_digit 10 c"
  shows "c \<noteq> CHR ''n''" "c \<noteq> dquote" "c \<noteq> CHR ''{''" "\<not> is_json_ws c"
  using assms
  by (auto simp: is_radix_digit_def radix_digit_def digit_val_def dquote_def is_json_ws_def Let_def
      split: if_splits)

lemma parse_value_null: "parse_value (Suc n) (''null'' @ rest) = Some (JNull, rest)"
  by simp

lemma parse_value_string: "parse_value (Suc n) (quote s @ rest) = Some (JString s, rest)"
proof -
  have "quote s @ rest \<noteq> []" "hd (quote s @ rest) = dquote" "dquote \<noteq> CHR ''n''"
    by (simp_all add: quote_def dquote_def)
  then show ?thesis
    by (simp only: parse_value.simps parse_quote) simp
qed

lemma parse_value_number:
  assumes "follow_ok rest"
  shows "parse_value (Suc n) (number_to_string i @ rest) = Some (JNumber i, rest)"
proof -
  let ?s = "number_to_string i"
  have ne: "?s @ rest \<noteq> []" using hd_number_to_string [of i] by simp
  have hd: "hd (?s @ rest) = hd ?s" using hd_number_to_string [of i] by simp
  have h: "hd ?s \<noteq> CHR ''n''" "hd ?s \<noteq> dquote" "hd ?s \<noteq> CHR ''{''"
    using number_head [of "hd ?s"] hd_number_to_string [of i] by blast+
  show ?thesis
    using ne h by (simp only: parse_value.simps hd parse_number_roundtrip [OF assms]) simp
qed

lemma parse_value_empty_object: "parse_value (Suc n) (''{}'' @ rest) = Some (JObject [], rest)"
  by (simp add: dquote_def skip_ws_plain starts_plain_simps)

lemma parse_value_object:
  assumes "ws_only w" and "hd r = dquote" and "r \<noteq> []"
    and "parse_members n r = Some (ms, r')"
  shows "parse_value (Suc n) (CHR ''{'' # w @ r) = Some (JObject ms, r')"
proof -
  have sp: "starts_plain r"
    using assms(2,3) by (simp add: starts_plain_def is_json_ws_def dquote_def)
  have sk: "skip_ws (w @ r) = r" by (rule skip_ws_ws_plain [OF assms(1) sp])
  have "hd r \<noteq> CHR ''}''" using assms(2) by (simp add: dquote_def)
  then show ?thesis
    by (simp add: sk assms(4) dquote_def)
qed

lemma parse_members_key:
  "parse_members (Suc n) (quote k @ CHR '':'' # w0 @ vs) =
     (case parse_value n (skip_ws (w0 @ vs)) of
        None \<Rightarrow> None
      | Some (v, r3) \<Rightarrow>
          (let r4 = skip_ws r3 in
           if r4 \<noteq> [] \<and> hd r4 = CHR '','' then
             (case parse_members n (skip_ws (tl r4)) of
                None \<Rightarrow> None
              | Some (ms, r5) \<Rightarrow> Some ((k, v) # ms, r5))
           else if r4 \<noteq> [] \<and> hd r4 = CHR ''}'' then Some ([(k, v)], tl r4)
           else None))"
proof -
  have a: "quote k @ CHR '':'' # w0 @ vs \<noteq> []" "hd (quote k @ CHR '':'' # w0 @ vs) = dquote"
    by (simp_all add: quote_def)
  have b: "parse_string_body (tl (quote k @ CHR '':'' # w0 @ vs)) = Some (k, CHR '':'' # w0 @ vs)"
    by (rule parse_quote)
  have c: "skip_ws (CHR '':'' # w0 @ vs) = CHR '':'' # w0 @ vs"
    by (rule skip_ws_plain) (rule starts_plain_simps)
  show ?thesis
    using a by (simp only: parse_members.simps b) (simp add: c Let_def)
qed
lemma join_Cons: "join sep (x # xs) = x @ (if xs = [] then [] else sep @ join sep xs)"
  by (cases xs) simp_all

lemma serialize_properties_Nil: "(serialize_properties gap ind ms = []) = (ms = [])"
  by (cases ms) auto

lemma hd_join_properties:
  assumes "ms \<noteq> []"
  shows "join sep (serialize_properties gap ind ms) @ t \<noteq> [] \<and>
         hd (join sep (serialize_properties gap ind ms) @ t) = dquote"
proof -
  obtain k v ms' where ms: "ms = (k, v) # ms'" using assms by (cases ms) auto
  show ?thesis by (simp add: ms join_Cons quote_def)
qed

lemma serialize_plain: "starts_plain (serialize gap ind v @ rest)"
proof (cases v)
  case JNull
  then show ?thesis by (simp add: starts_plain_def is_json_ws_def)
next
  case (JNumber i)
  then show ?thesis
    using hd_number_to_string [of i] number_head(4) [of "hd (number_to_string i)"]
    by (simp add: starts_plain_def)
next
  case (JString s)
  then show ?thesis by (simp add: starts_plain_simps)
next
  case (JObject ms)
  then show ?thesis by (simp add: starts_plain_def is_json_ws_def Let_def)
qed

lemma parse_serialize:
  "ws_only gap \<Longrightarrow> ws_only ind \<Longrightarrow> follow_ok rest \<Longrightarrow> fuel_of v \<le> n \<Longrightarrow>
     parse_value n (serialize gap ind v @ rest) = Some (v, rest)"
  and parse_serialize_properties:
  "ws_only gap \<Longrightarrow> ws_only ind \<Longrightarrow> ws_only w1 \<Longrightarrow> ws_only w2 \<Longrightarrow> ms \<noteq> [] \<Longrightarrow>
     fuel_members ms \<le> n \<Longrightarrow>
     parse_members n (join (CHR '','' # w1) (serialize_properties gap ind ms) @ w2 @ CHR ''}'' # rest)
       = Some (ms, rest)"
proof (induction gap ind v and gap ind ms arbitrary: n rest and n rest w1 w2
    rule: serialize_serialize_properties.induct)
  case (1 gap indent)
  then obtain n' where "n = Suc n'" by (cases n) auto
  then show ?case by (simp only: serialize.simps parse_value_null)
next
  case (2 gap indent i)
  then obtain n' where "n = Suc n'" by (cases n) auto
  then show ?case using 2 by (simp only: serialize.simps parse_value_number)
next
  case (3 gap indent s)
  then obtain n' where "n = Suc n'" by (cases n) auto
  then show ?case by (simp only: serialize.simps parse_value_string)
next
  case (4 gap indent ms)
  from 4 obtain n' where n: "n = Suc n'" and fm: "fuel_members ms \<le> n'" by (cases n) auto
  show ?case
  proof (cases "ms = []")
    case True
    then show ?thesis using parse_value_empty_object [of n' rest] by (simp add: n)
  next
    case False
    have wi: "ws_only (indent @ gap)" using 4 by (simp add: ws_only_simps)
    let ?ps = "serialize_properties gap (indent @ gap) ms"
    show ?thesis
    proof (cases "gap = []")
      case True
      have pm: "parse_members n' (join (CHR '','' # []) ?ps @ [] @ CHR ''}'' # rest) = Some (ms, rest)"
        by (rule 4(1) [OF refl refl 4(2) wi _ _ False fm]) (simp_all add: ws_only_simps)
      have s: "serialize gap indent (JObject ms) @ rest
            = CHR ''{'' # [] @ (join '','' ?ps @ CHR ''}'' # rest)"
        using False True by (simp add: serialize_properties_Nil)
      show ?thesis
        unfolding s n
        by (rule parse_value_object) (use pm hd_join_properties [OF False] in \<open>simp_all add: ws_only_simps\<close>)
    next
      case gap: False
      have w1: "ws_only (newline # indent @ gap)" using wi by (simp add: ws_only_simps)
      have w2: "ws_only (newline # indent)" using 4 by (simp add: ws_only_simps)
      have pm: "parse_members n' (join (CHR '','' # newline # indent @ gap) ?ps
                  @ (newline # indent) @ CHR ''}'' # rest) = Some (ms, rest)"
        by (rule 4(1) [OF refl refl 4(2) wi w1 w2 False fm])
      have s: "serialize gap indent (JObject ms) @ rest
            = CHR ''{'' # (newline # indent @ gap) @
                (join (CHR '','' # newline # indent @ gap) ?ps @ (newline # indent) @ CHR ''}'' # rest)"
        using False gap by (simp add: serialize_properties_Nil Let_def)
      show ?thesis
        unfolding s n
        by (rule parse_value_object [OF w1]) (use pm hd_join_properties [OF False] in simp_all)
    qed
  qed
next
  case (5 gap indent)
  then show ?case by simp
next
  case (6 gap indent k v ms)
  from 6 obtain n' where n: "n = Suc n'" and fv: "fuel_of v \<le> n'" and fm: "fuel_members ms \<le> n'"
    by (cases n) auto
  let ?w0 = "if gap = [] then [] else '' ''"
  have w0: "ws_only ?w0" by (simp add: ws_only_simps)
  let ?vs = "serialize gap indent v"
  show ?case
  proof (cases "ms = []")
    case True
    let ?tail = "w2 @ CHR ''}'' # rest"
    have fo: "follow_ok ?tail"
      by (rule follow_ok_ws [OF 6(6)]) (simp_all add: follow_ok_simps)
    have pv: "parse_value n' (?vs @ ?tail) = Some (v, ?tail)"
      by (rule 6(1) [OF 6(3) 6(4) fo fv])
    have sk: "skip_ws (?w0 @ ?vs @ ?tail) = ?vs @ ?tail"
      by (rule skip_ws_ws_plain [OF w0 serialize_plain])
    have sk2: "skip_ws ?tail = CHR ''}'' # rest"
      by (rule skip_ws_ws_plain [OF 6(6)]) (rule starts_plain_simps)
    have s: "join (CHR '','' # w1) (serialize_properties gap indent ((k, v) # ms)) @ ?tail
          = quote k @ CHR '':'' # ?w0 @ ?vs @ ?tail"
      using True by simp
    show ?thesis
      unfolding s n parse_members_key sk pv using True by (simp add: sk2)
  next
    case False
    let ?more = "join (CHR '','' # w1) (serialize_properties gap indent ms) @ w2 @ CHR ''}'' # rest"
    let ?tail = "CHR '','' # w1 @ ?more"
    have fo: "follow_ok ?tail" by (rule follow_ok_simps)
    have pv: "parse_value n' (?vs @ ?tail) = Some (v, ?tail)"
      by (rule 6(1) [OF 6(3) 6(4) fo fv])
    have sk: "skip_ws (?w0 @ ?vs @ ?tail) = ?vs @ ?tail"
      by (rule skip_ws_ws_plain [OF w0 serialize_plain])
    have sk2: "skip_ws ?tail = ?tail"
      by (rule skip_ws_plain) (rule starts_plain_simps)
    have mp: "starts_plain ?more"
      using hd_join_properties [OF False, of "CHR '','' # w1" gap indent "w2 @ CHR ''}'' # rest"]
      by (simp add: starts_plain_def is_json_ws_def dquote_def)
    have sk3: "skip_ws (w1 @ ?more) = ?more"
      by (rule skip_ws_ws_plain [OF 6(5) mp])
    have pm: "parse_members n' ?more = Some (ms, rest)"
      by (rule 6(2) [OF 6(3) 6(4) 6(5) 6(6) False fm])
    have s: "join (CHR '','' # w1) (serialize_properties gap indent ((k, v) # ms))
               @ w2 @ CHR ''}'' # rest
          = quote k @ CHR '':'' # ?w0 @ ?vs @ ?tail"
      using False by (simp add: join_Cons serialize_properties_Nil)
    show ?thesis
      unfolding s n parse_members_key sk pv by (simp add: sk2 sk3 pm)
  qed
qed

lemma fuel_le_length:
  "fuel_of v \<le> length (serialize gap ind v)"
  and fuel_members_le_length:
  "fuel_members ms \<le> length (join sep (serialize_properties gap ind ms))"
proof (induction gap ind v and gap ind ms arbitrary: and sep
    rule: serialize_serialize_properties.induct)
  case (1 gap indent)
  show ?case by simp
next
  case (2 gap indent i)
  show ?case using hd_number_to_string [of i] by (cases "number_to_string i") simp_all
next
  case (3 gap indent s)
  show ?case by (simp add: quote_def)
next
  case (4 gap indent ms)
  show ?case
  proof (cases "ms = []")
    case True
    then show ?thesis by simp
  next
    case False
    show ?thesis
    proof (cases "gap = []")
      case True
      have "fuel_members ms \<le> length (join '','' (serialize_properties gap (indent @ gap) ms))"
        by (rule 4 [OF refl refl])
      then show ?thesis using False True by (simp add: serialize_properties_Nil)
    next
      case gap: False
      have "fuel_members ms
          \<le> length (join ('','' @ [newline] @ indent @ gap) (serialize_properties gap (indent @ gap) ms))"
        by (rule 4 [OF refl refl])
      then show ?thesis using False gap by (simp add: serialize_properties_Nil Let_def)
    qed
  qed
next
  case (5 gap indent)
  show ?case by simp
next
  case (6 gap indent k v ms)
  have a: "fuel_of v \<le> length (serialize gap indent v)" by (rule 6(1))
  have b: "fuel_members ms \<le> length (join sep (serialize_properties gap indent ms))" by (rule 6(2))
  show ?case
  proof (cases "ms = []")
    case True
    then show ?thesis using a by (simp add: quote_def)
  next
    case False
    then show ?thesis using a b by (simp add: join_Cons quote_def serialize_properties_Nil)
  qed
qed

lemma JSON_parse_serialize:
  assumes "ws_only gap"
  shows "JSON_parse (serialize gap [] v) = Some v"
proof -
  let ?s = "serialize gap [] v"
  have sk: "skip_ws ?s = ?s"
    using serialize_plain [of gap "[]" v "[]"] by (simp add: skip_ws_plain)
  have "parse_value (length ?s) (?s @ []) = Some (v, [])"
    by (rule parse_serialize [OF assms _ _ fuel_le_length]) (simp_all add: ws_only_simps follow_ok_simps)
  moreover have "skip_ws [] = []" by (simp add: skip_ws_def)
  ultimately show ?thesis
    by (simp add: JSON_parse_def sk)
qed

lemma JSON_roundtrip: "JSON_parse (JSON_stringify v) = Some v"
  unfolding JSON_stringify_def by (rule JSON_parse_serialize) (simp add: ws_only_simps)

lemma JSON_roundtrip_2: "JSON_parse (JSON_stringify_2 v) = Some v"
  unfolding JSON_stringify_2_def by (rule JSON_parse_serialize) (simp add: ws_only_simps)
subsection \<open>Encoded URI components are read back\<close>

lemma of_char_upper_hex_char:
  "d < 16 \<Longrightarrow> (of_char (upper_hex_char d) :: nat) = (if d < 10 then 48 + d else 55 + d)"
  by (simp add: upper_hex_char_def)

lemma radix_digit_upper_hex_char: "d < 16 \<Longrightarrow> radix_digit 16 (upper_hex_char d) = Some d"
  by (simp add: radix_digit_def digit_val_def of_char_upper_hex_char)

lemma hex2_percent:
  assumes "b < 256"
  shows "hex2 (upper_hex_char (b div 16)) (upper_hex_char (b mod 16)) = Some b"
proof -
  have a: "b div 16 < 16" using assms by simp
  have c: "b mod 16 < 16" by simp
  show ?thesis
    unfolding hex2_def digits_value_def is_radix_digit_def
    by (simp add: radix_digit_upper_hex_char [OF a] radix_digit_upper_hex_char [OF c])
qed

lemma decode_percent_ascii:
  assumes "b < 128"
  shows "decodeURIComponent (percent b @ t) = cons_option (char_of b) (decodeURIComponent t)"
  using assms by (simp add: percent_def hex2_percent)

lemma decode_percent_pair:
  assumes "b1 = 194 \<or> b1 = 195" and "128 \<le> b2" and "b2 < 192"
  shows "decodeURIComponent (percent b1 @ percent b2 @ t)
       = cons_option (char_of ((b1 - 192) * 64 + (b2 - 128))) (decodeURIComponent t)"
proof -
  have "b1 < 256" using assms(1) by auto
  then have h1: "hex2 (upper_hex_char (b1 div 16)) (upper_hex_char (b1 mod 16)) = Some b1"
    by (rule hex2_percent)
  have "b2 < 256" using assms(3) by simp
  then have h2: "hex2 (upper_hex_char (b2 div 16)) (upper_hex_char (b2 mod 16)) = Some b2"
    by (rule hex2_percent)
  have c1: "(b1 < 128) = False" using assms(1) by auto
  have c2: "(b1 = 194 \<or> b1 = 195) = True" using assms(1) by simp
  have c3: "(128 \<le> b2 \<and> b2 < 192) = True" using assms(2,3) by simp
  show ?thesis
    unfolding percent_def
    by (simp only: append.simps decodeURIComponent.simps list.case h1 h2 c1 c2 c3 option.case
        if_True if_False not_True_eq_False not_False_eq_True simp_thms)
qed

lemma div64_lower: "128 \<le> n \<Longrightarrow> 2 \<le> n div (64::nat)"
  by (simp add: less_eq_div_iff_mult_less_eq)

lemma div64_upper: "n < 256 \<Longrightarrow> n div (64::nat) < 4"
  by (simp add: div_less_iff_less_mult)

lemma div64: "128 \<le> n \<Longrightarrow> n < 256 \<Longrightarrow> n div 64 = 2 \<or> n div 64 = (3::nat)"
  using div64_lower [of n] div64_upper [of n] by linarith

lemma div64_lead: "128 \<le> n \<Longrightarrow> n < 256 \<Longrightarrow> 192 + n div 64 = 194 \<or> 192 + n div 64 = (195::nat)"
  using div64 [of n] by auto

lemma utf8_recombine: "(192 + n div 64 - 192) * 64 + (128 + n mod 64 - 128) = (n::nat)"
  by simp

lemma decode_percent_two:
  assumes "128 \<le> n" "n < 256"
  shows "decodeURIComponent (percent (192 + n div 64) @ percent (128 + n mod 64) @ t)
       = cons_option (char_of n) (decodeURIComponent t)"
proof -
  have "decodeURIComponent (percent (192 + n div 64) @ percent (128 + n mod 64) @ t)
       = cons_option (char_of ((192 + n div 64 - 192) * 64 + (128 + n mod 64 - 128))) (decodeURIComponent t)"
    by (rule decode_percent_pair [OF div64_lead [OF assms]]) simp_all
  then show ?thesis by (simp only: utf8_recombine)
qed

lemma percent_not_unreserved: "\<not> uri_unreserved (CHR ''%'')"
  by (simp add: uri_unreserved_def)

lemma decode_encode_char:
  "decodeURIComponent (uri_encode_char c @ t) = cons_option c (decodeURIComponent t)"
proof -
  define n where "n = (of_char c :: nat)"
  have c: "char_of n = c" by (simp add: n_def)
  have n256: "n < 256" by (simp add: n_def)
  show ?thesis
  proof (cases "uri_unreserved c")
    case True
    have "c \<noteq> CHR ''%''"
    proof
      assume "c = CHR ''%''"
      with True show False by (simp add: percent_not_unreserved)
    qed
    moreover have "uri_encode_char c = [c]" using True by (simp add: uri_encode_char_def Let_def)
    ultimately show ?thesis by simp
  next
    case False
    show ?thesis
    proof (cases "n < 128")
      case True
      have e: "uri_encode_char c = percent n"
        using False True by (simp add: uri_encode_char_def n_def Let_def)
      show ?thesis
        unfolding e using decode_percent_ascii [OF True, of t] by (simp only: c)
    next
      case ge: False
      have e: "uri_encode_char c = percent (192 + n div 64) @ percent (128 + n mod 64)"
        using False ge by (simp add: uri_encode_char_def n_def Let_def)
      have "128 \<le> n" using ge by simp
      from decode_percent_two [OF this n256, of t] show ?thesis
        unfolding e by (simp only: c append_assoc)
    qed
  qed
qed

lemma decode_encode: "decodeURIComponent (encodeURIComponent s) = Some s"
proof (induction s)
  case Nil
  show ?case by (simp add: encodeURIComponent_def)
next
  case (Cons c s)
  have "decodeURIComponent (uri_encode_char c @ encodeURIComponent s)
      = cons_option c (decodeURIComponent (encodeURIComponent s))"
    by (rule decode_encode_char)
  then show ?case using Cons by (simp add: encodeURIComponent_def cons_option_def)
qed

section \<open>Properties of the search\<close>

lemmas parseInt_defs = parseInt_def is_ws_def is_radix_digit_def radix_digit_def digit_val_def digits_value_def

lemma hour_1000: "parseInt ''10'' = Some 10"
  by (simp add: parseInt_defs)
lemma hour_1430: "parseInt ''14'' = Some 14"
  by (simp add: parseInt_defs)
lemma hour_1945: "parseInt ''19'' = Some 19"
  by (simp add: parseInt_defs)

lemma spec_hours: "spec_hour ''10:00'' = 10" "spec_hour ''14:30'' = 14" "spec_hour ''19:45'' = 19"
  by (simp_all add: spec_hour_def)

lemma slot_code_spec:
  assumes "0 \<le> h" "h < 24"
  shows "(js_not t \<or> (t = ''morning'' \<and> js_lt (Some h) (Some 12)) \<or>
          (t = ''afternoon'' \<and> js_ge (Some h) (Some 12) \<and> js_lt (Some h) (Some 18)) \<or>
          (t = ''evening'' \<and> js_ge (Some h) (Some 18)))
         = (t \<noteq> [] \<longrightarrow> spec_in_slot t h)"
  using assms unfolding js_not_def js_lt_def js_ge_def spec_in_slot_def
  by (simp only: option.case) fastforce

lemma keeps_spec_hour:
  assumes "parseInt (split CHR '':'' (time f) ! 0) = Some h" "spec_hour (time f) = h" "0 \<le> h" "h < 24"
  shows "keeps a (Some m) t f = spec_satisfies a m t f"
  unfolding keeps_def Let_def spec_satisfies_def assms(1) assms(2) slot_code_spec[OF assms(3,4)]
  by (auto simp: js_not_def js_le_def)

lemma keeps_spec:
  assumes "f \<in> set (flights r1 r2 r3)"
  shows "keeps a (Some m) t f = spec_satisfies a m t f"
proof -
  from assms consider "time f = ''10:00''" | "time f = ''14:30''" | "time f = ''19:45''"
    by (auto simp: flights_def)
  then show ?thesis
  proof cases
    case 1
    show ?thesis by (rule keeps_spec_hour[where h = 10]) (simp_all add: 1 hour_1000 spec_hours)
  next
    case 2
    show ?thesis by (rule keeps_spec_hour[where h = 14]) (simp_all add: 2 hour_1430 spec_hours)
  next
    case 3
    show ?thesis by (rule keeps_spec_hour[where h = 19]) (simp_all add: 3 hour_1945 spec_hours)
  qed
qed

lemma getPrice_bounds: "0 \<le> r \<Longrightarrow> r < 1 \<Longrightarrow> 4000 \<le> getPrice r \<and> getPrice r \<le> 8999"
  unfolding getPrice_def by (simp add: floor_less_iff le_floor_iff) 

lemma getPrice_lower: "0 \<le> r \<Longrightarrow> 4000 \<le> getPrice r"
  unfolding getPrice_def by simp

lemma getPrice_of_int: "getPrice (real_of_int q / 5000) = q + 4000"
proof -
  have "real_of_int q / 5000 * 5000 = real_of_int q" by simp
  then show ?thesis unfolding getPrice_def by (simp only: floor_of_int)
qed

lemma getPrice_onto:
  assumes "4000 \<le> p" "p \<le> 8999"
  shows "\<exists>r. 0 \<le> r \<and> r < 1 \<and> getPrice r = p"
proof -
  have "getPrice (real_of_int (p - 4000) / 5000) = p"
    using getPrice_of_int [of "p - 4000"] by simp
  moreover have "0 \<le> real_of_int (p - 4000) / 5000" "real_of_int (p - 4000) / 5000 < 1"
    using assms by simp_all
  ultimately show ?thesis by blast
qed

text \<open>
  C1. For every search criteria whose maximal price is an integer, the search returns
  exactly the members of the three-element catalog (Air India AI202 10:00, IndiGo 6E305
  14:30, SpiceJet SG101 19:45, each with its freshly drawn price) that satisfy the three
  conditions of the specification: the airline equals the airline filter when one is set,
  the price is at most the maximal price, and the departure hour lies in the interval of
  the time slot when one is set.
\<close>

theorem search_spec:
  assumes "parseInt (price_value form) = Some m"
  shows "search form r1 r2 r3 =
           filter (spec_satisfies (airline_value form) m (time_value form)) (flights r1 r2 r3) \<and>
         map (\<lambda>f. (airline f, flight f, time f)) (flights r1 r2 r3) =
           [(''Air India'', ''AI202'', ''10:00''), (''IndiGo'', ''6E305'', ''14:30''),
            (''SpiceJet'', ''SG101'', ''19:45'')]"
proof
  show "search form r1 r2 r3 =
          filter (spec_satisfies (airline_value form) m (time_value form)) (flights r1 r2 r3)"
    unfolding search_def Let_def assms
    by (rule filter_cong) (simp_all add: keeps_spec)
  show "map (\<lambda>f. (airline f, flight f, time f)) (flights r1 r2 r3) =
          [(''Air India'', ''AI202'', ''10:00''), (''IndiGo'', ''6E305'', ''14:30''),
           (''SpiceJet'', ''SG101'', ''19:45'')]"
    by (simp add: flights_def)
qed

theorem search_spec_witness:
  "parseInt ''7000'' = Some 7000 \<and>
   search \<lparr>from_value = ''DEL'', to_value = ''BOM'', airline_value = '''', price_value = ''7000'',
     time_value = ''evening''\<rparr> (9 / 10) (1 / 4) (1 / 5) =
   filter (spec_satisfies '''' 7000 ''evening'') (flights (9 / 10) (1 / 4) (1 / 5)) \<and>
   filter (spec_satisfies '''' 7000 ''evening'') (flights (9 / 10) (1 / 4) (1 / 5)) =
   [\<lparr>airline = ''SpiceJet'', flight = ''SG101'', time = ''19:45'', price = 5000\<rparr>]"
proof -
  have p: "parseInt ''7000'' = Some 7000" by (simp add: parseInt_defs)
  show ?thesis
    using search_spec [of "\<lparr>from_value = ''DEL'', to_value = ''BOM'', airline_value = '''',
      price_value = ''7000'', time_value = ''evening''\<rparr>" 7000 "9 / 10" "1 / 4" "1 / 5"] p
    by (simp add: flights_def spec_satisfies_def spec_in_slot_def spec_hours getPrice_def)
qed

text \<open>
  C3. In every search the price of every offer, in the catalog and so in the result, is
  an integer from 4000 to 8999, whatever \<open>Math.random\<close> returns in \<open>[0, 1)\<close>; the
  three offers of one search take three separate draws, and every triple of prices in
  that range is the outcome of some draws.
\<close>

theorem price_range:
  "((0 \<le> r1 \<and> r1 < 1) \<and> (0 \<le> r2 \<and> r2 < 1) \<and> (0 \<le> r3 \<and> r3 < 1) \<longrightarrow>
     (\<forall>f \<in> set (flights r1 r2 r3). 4000 \<le> price f \<and> price f \<le> 8999) \<and>
     (\<forall>f \<in> set (search form r1 r2 r3). 4000 \<le> price f \<and> price f \<le> 8999)) \<and>
   (p1 \<in> {4000..8999} \<and> p2 \<in> {4000..8999} \<and> p3 \<in> {4000..8999} \<longrightarrow>
     (\<exists>q1 q2 q3. (0 \<le> q1 \<and> q1 < 1) \<and> (0 \<le> q2 \<and> q2 < 1) \<and> (0 \<le> q3 \<and> q3 < 1) \<and>
        map price (flights q1 q2 q3) = [p1, p2, p3]))"
proof (intro conjI impI)
  assume r: "(0 \<le> r1 \<and> r1 < 1) \<and> (0 \<le> r2 \<and> r2 < 1) \<and> (0 \<le> r3 \<and> r3 < 1)"
  show all: "\<forall>f \<in> set (flights r1 r2 r3). 4000 \<le> price f \<and> price f \<le> 8999"
    using r getPrice_bounds [of r1] getPrice_bounds [of r2] getPrice_bounds [of r3]
    by (simp add: flights_def)
  have "set (search form r1 r2 r3) \<subseteq> set (flights r1 r2 r3)"
    by (simp add: search_def Let_def)
  with all show "\<forall>f \<in> set (search form r1 r2 r3). 4000 \<le> price f \<and> price f \<le> 8999"
    by blast
next
  assume a: "p1 \<in> {4000..8999} \<and> p2 \<in> {4000..8999} \<and> p3 \<in> {4000..8999}"
  have "\<exists>r. 0 \<le> r \<and> r < 1 \<and> getPrice r = p1"
    by (rule getPrice_onto) (use a in simp_all)
  then obtain q1 where q1: "0 \<le> q1 \<and> q1 < 1" "getPrice q1 = p1" by blast
  have "\<exists>r. 0 \<le> r \<and> r < 1 \<and> getPrice r = p2"
    by (rule getPrice_onto) (use a in simp_all)
  then obtain q2 where q2: "0 \<le> q2 \<and> q2 < 1" "getPrice q2 = p2" by blast
  have "\<exists>r. 0 \<le> r \<and> r < 1 \<and> getPrice r = p3"
    by (rule getPrice_onto) (use a in simp_all)
  then obtain q3 where q3: "0 \<le> q3 \<and> q3 < 1" "getPrice q3 = p3" by blast
  have m: "map price (flights q1 q2 q3) = [p1, p2, p3]"
    by (simp add: flights_def q1 q2 q3)
  show "\<exists>q1 q2 q3. (0 \<le> q1 \<and> q1 < 1) \<and> (0 \<le> q2 \<and> q2 < 1) \<and> (0 \<le> q3 \<and> q3 < 1) \<and>
        map price (flights q1 q2 q3) = [p1, p2, p3]"
    by (intro exI [of _ q1] exI [of _ q2] exI [of _ q3] conjI q1(1) q2(1) q3(1) m)
qed

theorem price_range_witness:
  "((0 \<le> (0 :: real) \<and> (0 :: real) < 1) \<and> (0 \<le> (1 / 2 :: real) \<and> (1 / 2 :: real) < 1) \<and>
    (0 \<le> (9999 / 10000 :: real) \<and> (9999 / 10000 :: real) < 1)) \<and>
   map price (flights 0 (1 / 2) (9999 / 10000)) = [4000, 6500, 8999] \<and>
   list_all (\<lambda>f. 4000 \<le> price f \<and> price f \<le> 8999) (flights 0 (1 / 2) (9999 / 10000)) \<and>
   list_all (\<lambda>f. 4000 \<le> price f \<and> price f \<le> 8999)
     (search \<lparr>from_value = ''DEL'', to_value = ''BOM'', airline_value = '''',
        price_value = ''7000'', time_value = ''''\<rparr> 0 (1 / 2) (9999 / 10000)) \<and>
   ((4000 :: int) \<in> {4000..8999} \<and> (8999 :: int) \<in> {4000..8999} \<and> (6123 :: int) \<in> {4000..8999}) \<and>
   (\<exists>q1 q2 q3. (0 \<le> q1 \<and> q1 < 1) \<and> (0 \<le> q2 \<and> q2 < 1) \<and> (0 \<le> q3 \<and> q3 < 1) \<and>
      map price (flights q1 q2 q3) = [4000, 8999, 6123])"
proof -
  have m: "map price (flights 0 (1 / 2) (9999 / 10000)) = [4000, 6500, 8999]"
    by (simp add: flights_def getPrice_def)
  show ?thesis
    using price_range [of 0 "1 / 2" "9999 / 10000"
        "\<lparr>from_value = ''DEL'', to_value = ''BOM'', airline_value = '''',
          price_value = ''7000'', time_value = ''''\<rparr>" 4000 8999 6123] m
    by (simp add: list_all_iff)
qed

text \<open>
  C5. With a maximal price below 4000 the search returns no candidate, whatever the
  draws of the prices, the airline filter and the time slot.
\<close>

theorem search_below_4000:
  assumes "parseInt (price_value form) = Some m" and "m < 4000"
    and "0 \<le> r1 \<and> r1 < 1" and "0 \<le> r2 \<and> r2 < 1" and "0 \<le> r3 \<and> r3 < 1"
  shows "search form r1 r2 r3 = []"
proof -
  have "\<not> js_le (Some (getPrice r)) (Some m)" if "0 \<le> r" for r
    using getPrice_lower [OF that] assms(2) by (simp add: js_le_def)
  then show ?thesis
    using assms(3-5) by (simp add: search_def assms(1) flights_def keeps_def Let_def)
qed

theorem search_below_4000_witness:
  "parseInt ''3999'' = Some 3999 \<and> (3999 :: int) < 4000 \<and>
   search \<lparr>from_value = ''DEL'', to_value = ''BOM'', airline_value = '''', price_value = ''3999'',
     time_value = ''''\<rparr> 0 (1 / 2) (3 / 4) = []"
proof -
  have p: "parseInt ''3999'' = Some 3999" by (simp add: parseInt_defs)
  show ?thesis
    using search_below_4000 [of "\<lparr>from_value = ''DEL'', to_value = ''BOM'', airline_value = '''',
      price_value = ''3999'', time_value = ''''\<rparr>" 3999 0 "1 / 2" "3 / 4"] p
    by simp
qed

text \<open>
  C6. The search from DEL to BOM with airline IndiGo, maximal price 9000 and time slot
  afternoon returns exactly one offer, IndiGo 6E305 at 14:30, whose price is at most
  9000, for every draw of the prices.
\<close>

theorem search_scenario:
  assumes "0 \<le> r1 \<and> r1 < 1" and "0 \<le> r2 \<and> r2 < 1" and "0 \<le> r3 \<and> r3 < 1"
  shows "search \<lparr>from_value = ''DEL'', to_value = ''BOM'', airline_value = ''IndiGo'',
           price_value = ''9000'', time_value = ''afternoon''\<rparr> r1 r2 r3 =
         [\<lparr>airline = ''IndiGo'', flight = ''6E305'', time = ''14:30'', price = getPrice r2\<rparr>] \<and>
         getPrice r2 \<le> 9000"
proof -
  have p: "parseInt ''9000'' = Some 9000" by (simp add: parseInt_defs)
  have le: "getPrice r2 \<le> 9000"
    using getPrice_bounds [of r2] assms(2) by simp
  then show ?thesis
    by (simp add: search_def p flights_def keeps_def Let_def js_not_def js_le_def js_lt_def
        js_ge_def hour_1430)
qed

theorem search_scenario_witness:
  "search \<lparr>from_value = ''DEL'', to_value = ''BOM'', airline_value = ''IndiGo'',
     price_value = ''9000'', time_value = ''afternoon''\<rparr> (1 / 10) (1 / 2) (9 / 10) =
   [\<lparr>airline = ''IndiGo'', flight = ''6E305'', time = ''14:30'', price = 6500\<rparr>]"
  using search_scenario [of "1 / 10" "1 / 2" "9 / 10"] by (simp add: getPrice_def)

text \<open>
  C9. When the maximal-price field does not parse as a number (\<open>parseInt\<close> gives NaN),
  the filter rejects every candidate and the result list is empty. The search is a total
  function returning a list: it has no error result.
\<close>

theorem search_nan:
  assumes "parseInt (price_value form) = None"
  shows "search form r1 r2 r3 = []"
  by (simp add: search_def assms flights_def keeps_def Let_def js_le_def)

theorem search_nan_witness:
  "parseInt ''abc'' = None \<and>
   search \<lparr>from_value = ''DEL'', to_value = ''BOM'', airline_value = '''', price_value = ''abc'',
     time_value = ''''\<rparr> (1 / 10) (1 / 2) (9 / 10) = []"
proof -
  have p: "parseInt ''abc'' = None" by (simp add: parseInt_defs)
  show ?thesis
    using search_nan [of "\<lparr>from_value = ''DEL'', to_value = ''BOM'', airline_value = '''',
      price_value = ''abc'', time_value = ''''\<rparr>" "1 / 10" "1 / 2" "9 / 10"] p
    by simp
qed

section \<open>Properties of the booking workflow\<close>




lemma two_digits_pad:
  assumes "n < 100"
  shows "two_digits (digit_char (n div 10)) (digit_char (n mod 10)) = Some n"
proof -
  have a: "n div 10 < 10" using assms by simp
  have b: "n mod 10 < 10" by simp
  show ?thesis
    unfolding two_digits_def
    by (simp add: radix_digit_digit_char [OF a] radix_digit_digit_char [OF b])
qed

lemma in_range_pad:
  assumes "lo \<le> n" "n \<le> hi" "n < 100"
  shows "in_range (digit_char (n div 10)) (digit_char (n mod 10)) lo hi"
  unfolding in_range_def using assms(1,2) by (simp add: two_digits_pad [OF assms(3)])

lemma iso8601_toISOString:
  assumes "valid_date d"
  shows "iso8601 (toISOString d)"
proof -
  have y: "year d div 1000 < 10" using assms by (simp add: valid_date_def div_less_iff_less_mult)
  have f: "milliseconds d div 100 < 10"
    using assms by (simp add: valid_date_def div_less_iff_less_mult)
  have dg: "is_radix_digit 10 (digit_char (year d div 1000))"
    "is_radix_digit 10 (digit_char (year d div 100 mod 10))"
    "is_radix_digit 10 (digit_char (year d div 10 mod 10))"
    "is_radix_digit 10 (digit_char (year d mod 10))"
    "is_radix_digit 10 (digit_char (milliseconds d div 100))"
    "is_radix_digit 10 (digit_char (milliseconds d div 10 mod 10))"
    "is_radix_digit 10 (digit_char (milliseconds d mod 10))"
    using y f by (simp_all add: is_radix_digit_digit_char)
  have r: "in_range (digit_char (month d div 10)) (digit_char (month d mod 10)) 1 12"
    "in_range (digit_char (day d div 10)) (digit_char (day d mod 10)) 1 31"
    "in_range (digit_char (hours d div 10)) (digit_char (hours d mod 10)) 0 23"
    "in_range (digit_char (minutes d div 10)) (digit_char (minutes d mod 10)) 0 59"
    "in_range (digit_char (seconds d div 10)) (digit_char (seconds d mod 10)) 0 59"
    using assms by (simp_all add: valid_date_def in_range_pad)
  show ?thesis
    unfolding iso8601_def toISOString_def pad2_def pad3_def pad4_def
    using dg r by simp
qed

lemma selectedFlight_step:
  "selectedFlight (step e s) = (case e of SelectOffer x \<Rightarrow> Some x | _ \<Rightarrow> selectedFlight s)"
  by (cases e)
     (simp_all add: openBooking_def confirmBooking_def downloadReceipt_def Let_def
        split: option.splits)

lemma selectedFlight_run:
  "selectedFlight (run es s) = (case last_selected es of Some x \<Rightarrow> Some x | None \<Rightarrow> selectedFlight s)"
proof (induction es arbitrary: s)
  case Nil
  show ?case by simp
next
  case (Cons e es)
  show ?case
    by (simp add: Cons.IH selectedFlight_step split: option.splits event.splits)
qed

lemma last_selected_mem: "last_selected es = Some x \<Longrightarrow> SelectOffer x \<in> set es"
  by (induction es) (auto split: option.splits event.splits)

lemma bookingDetails_confirmBooking:
  "bookingDetails (confirmBooking name email' r now s) =
     Some \<lparr>passenger = name, email = email', booked_flight = selectedFlight s,
           pnr = ''PNR'' @ number_to_string \<lfloor>r * 1000000\<rfloor>, timestamp = toISOString now\<rparr>"
  by (simp add: confirmBooking_def Let_def)

lemma localStorage_confirmBooking:
  "localStorage (confirmBooking name email' r now s) =
     (localStorage s)(''booking'' \<mapsto> JSON_stringify (json_of_booking
        \<lparr>passenger = name, email = email', booked_flight = selectedFlight s,
         pnr = ''PNR'' @ number_to_string \<lfloor>r * 1000000\<rfloor>, timestamp = toISOString now\<rparr>))"
  by (simp add: confirmBooking_def Let_def)

lemma selectedFlight_confirmBooking:
  "selectedFlight (confirmBooking name email' r now s) = selectedFlight s"
  by (simp add: confirmBooking_def Let_def)

lemma payload_receipt:
  "payload \<lparr>href = data_prefix @ encodeURIComponent txt, download = d\<rparr> = Some txt"
  by (simp add: payload_def decode_encode)

lemma downloadReceipt_Some:
  assumes "bookingDetails t = Some b"
  shows "downloadReceipt t =
           Inr (t\<lparr>clicked := clicked t @
             [\<lparr>href = data_prefix @ encodeURIComponent (JSON_stringify_2 (json_of_booking b)),
               download = ''booking_'' @ pnr b @ ''.json''\<rparr>]\<rparr>)"
  by (simp add: downloadReceipt_def assms Let_def)

lemma json_of_flight_inj: "json_of_flight f = json_of_flight g \<Longrightarrow> f = g"
  by (cases f, cases g) (simp add: json_of_flight_def)

lemma json_of_flight_not_null: "json_of_flight f \<noteq> JNull"
  by (simp add: json_of_flight_def)

lemma json_of_booking_inj: "json_of_booking a = json_of_booking b \<Longrightarrow> a = b"
  by (cases a, cases b)
     (auto simp: json_of_booking_def json_of_flight_not_null json_of_flight_not_null [symmetric]
        dest: json_of_flight_inj split: option.splits)

lemma read_flight_json: "read_flight (json_of_flight f) = Some f"
  by (simp add: read_flight_def json_of_flight_def as_string_def as_number_def)

lemma read_selection_object:
  "w \<noteq> JNull \<Longrightarrow>
     read_selection (Some w) = (case read_flight w of None \<Rightarrow> None | Some f \<Rightarrow> Some (Some f))"
  by (cases w) (simp_all add: read_selection_def)

lemma read_booking_json: "read_booking (json_of_booking b) = Some b"
proof (cases "booked_flight b")
  case None
  then show ?thesis
    by (simp add: read_booking_def json_of_booking_def as_string_def read_selection_def)
next
  case (Some f)
  have "read_selection (Some (json_of_flight f)) = Some (Some f)"
    using read_selection_object [OF json_of_flight_not_null, of f] by (simp add: read_flight_json)
  then show ?thesis
    using Some by (simp add: read_booking_def json_of_booking_def as_string_def)
qed

lemma quote_keys:
  "quote ''passenger'' = in_quotes ''passenger''" "quote ''email'' = in_quotes ''email''"
  "quote ''flight'' = in_quotes ''flight''" "quote ''pnr'' = in_quotes ''pnr''"
  "quote ''timestamp'' = in_quotes ''timestamp''" "quote ''airline'' = in_quotes ''airline''"
  "quote ''time'' = in_quotes ''time''" "quote ''price'' = in_quotes ''price''"
  by (simp_all add: quote_def in_quotes_def json_escape_def)

lemma stringify_2_lines: "JSON_stringify_2 (json_of_booking b) = join [newline] (receipt_lines b)"
proof (cases "booked_flight b")
  case None
  then show ?thesis
    by (simp add: JSON_stringify_2_def json_of_booking_def receipt_lines_def Let_def quote_keys)
next
  case (Some f)
  then show ?thesis
    by (simp add: JSON_stringify_2_def json_of_booking_def json_of_flight_def receipt_lines_def
        Let_def quote_keys)
qed

lemma agrees_confirmBooking: "agrees (confirmBooking name email' r now s)"
  by (simp add: agrees_def bookingDetails_confirmBooking localStorage_confirmBooking JSON_roundtrip
      read_booking_json)

lemma agrees_step:
  assumes "bookingDetails s \<noteq> None \<longrightarrow> agrees s"
  shows "bookingDetails (step e s) \<noteq> None \<longrightarrow> agrees (step e s)"
proof (cases e)
  case (SelectOffer x)
  then show ?thesis
    using assms by (auto simp: openBooking_def agrees_def split: option.splits)
next
  case (ConfirmBooking name email' r now)
  then show ?thesis by (simp add: agrees_confirmBooking)
next
  case DownloadReceipt
  then show ?thesis
    using assms by (auto simp: downloadReceipt_def Let_def agrees_def split: option.splits)
qed

lemma agrees_run:
  assumes "bookingDetails s \<noteq> None \<longrightarrow> agrees s"
  shows "bookingDetails (run es s) \<noteq> None \<longrightarrow> agrees (run es s)"
  using assms
proof (induction es arbitrary: s)
  case Nil
  then show ?case by simp
next
  case (Cons e es)
  have "bookingDetails (step e s) \<noteq> None \<longrightarrow> agrees (step e s)"
    by (rule agrees_step [OF Cons.prems])
  then show ?case by (simp add: Cons.IH)
qed

lemmas digit_eval = number_to_string_def nat_to_string.simps digit_char_def char_of_def bit_Suc_0_iff

lemma number_500000: "number_to_string 500000 = ''500000''"
  by (simp add: digit_eval)

lemma a_moment_iso: "toISOString a_moment = ''2025-10-12T08:30:05.042Z''"
  by (simp add: toISOString_def a_moment_def pad2_def pad3_def pad4_def digit_eval)

lemma valid_a_moment: "valid_date a_moment"
  by (simp add: valid_date_def a_moment_def)

text \<open>
  C2, as stated, fails: in a session with no selection, \<open>confirmBooking\<close> does
  create a booking record, with \<open>null\<close> for its flight.
\<close>

theorem booking_without_selection:
  "selectedFlight (run [] (load blank_page)) = None \<and>
   bookingDetails (confirmBooking ''Alice'' ''a@x.com'' (1 / 2) a_moment (run [] (load blank_page))) =
     Some \<lparr>passenger = ''Alice'', email = ''a@x.com'', booked_flight = None, pnr = ''PNR500000'',
            timestamp = ''2025-10-12T08:30:05.042Z''\<rparr>"
  by (simp add: bookingDetails_confirmBooking number_500000 a_moment_iso load_def blank_page_def)

text \<open>
  C2, amended. In every session \<open>confirmBooking\<close> creates a booking record on every
  call. Its flight is the offer given to the latest \<open>selectOffer\<close> of the session, and
  \<open>null\<close> when there was none: a booking record that carries a flight offer is
  created only if that offer was selected before in the same session.
\<close>

theorem booking_carries_last_selection:
  "\<exists>b. bookingDetails (confirmBooking name email' r now (run es (load p))) = Some b \<and>
       booked_flight b = last_selected es \<and>
       (booked_flight b = Some x \<longrightarrow> SelectOffer x \<in> set es)"
proof -
  have sel: "selectedFlight (run es (load p)) = last_selected es"
    by (simp add: selectedFlight_run load_def split: option.splits)
  show ?thesis
    unfolding bookingDetails_confirmBooking sel
    by (auto dest: last_selected_mem)
qed

theorem booking_carries_last_selection_witness:
  "\<exists>b. bookingDetails (confirmBooking ''Alice'' ''a@x.com'' (1 / 2) a_moment
          (run [SelectOffer \<lparr>airline = ''IndiGo'', flight = ''6E305'', time = ''14:30'', price = 6500\<rparr>,
                DownloadReceipt] (load blank_page))) = Some b \<and>
       booked_flight b = Some \<lparr>airline = ''IndiGo'', flight = ''6E305'', time = ''14:30'', price = 6500\<rparr> \<and>
       SelectOffer \<lparr>airline = ''IndiGo'', flight = ''6E305'', time = ''14:30'', price = 6500\<rparr>
         \<in> set [SelectOffer \<lparr>airline = ''IndiGo'', flight = ''6E305'', time = ''14:30'', price = 6500\<rparr>,
                DownloadReceipt]"
  using booking_carries_last_selection [of "''Alice''" "''a@x.com''" "1 / 2" a_moment
      "[SelectOffer \<lparr>airline = ''IndiGo'', flight = ''6E305'', time = ''14:30'', price = 6500\<rparr>,
        DownloadReceipt]" blank_page
      "\<lparr>airline = ''IndiGo'', flight = ''6E305'', time = ''14:30'', price = 6500\<rparr>"]
  by simp



text \<open>
  C7. After two consecutive calls of \<open>confirmBooking\<close> the entry of the storage under
  the key \<open>booking\<close> is the JSON text of the second booking record: it parses to an
  object that, read as a booking record, has the name, the e-mail address, the code and
  the timestamp of the second call, and the selected flight. The storage is the one that
  the second call alone would have left: nothing of the first record remains.
\<close>

theorem second_booking_overwrites:
  "\<exists>b2 txt v.
     b2 = \<lparr>passenger = n2, email = e2, booked_flight = selectedFlight s,
           pnr = ''PNR'' @ number_to_string \<lfloor>r2 * 1000000\<rfloor>, timestamp = toISOString d2\<rparr> \<and>
     bookingDetails (confirmBooking n2 e2 r2 d2 (confirmBooking n1 e1 r1 d1 s)) = Some b2 \<and>
     localStorage (confirmBooking n2 e2 r2 d2 (confirmBooking n1 e1 r1 d1 s)) ''booking'' = Some txt \<and>
     txt = JSON_stringify (json_of_booking b2) \<and>
     JSON_parse txt = Some v \<and> read_booking v = Some b2 \<and>
     json_get v ''passenger'' = Some (JString n2) \<and>
     json_get v ''email'' = Some (JString e2) \<and>
     json_get v ''pnr'' = Some (JString (''PNR'' @ number_to_string \<lfloor>r2 * 1000000\<rfloor>)) \<and>
     json_get v ''timestamp'' = Some (JString (toISOString d2)) \<and>
     localStorage (confirmBooking n2 e2 r2 d2 (confirmBooking n1 e1 r1 d1 s))
       = localStorage (confirmBooking n2 e2 r2 d2 s)"
proof -
  let ?b = "\<lparr>passenger = n2, email = e2, booked_flight = selectedFlight s,
             pnr = ''PNR'' @ number_to_string \<lfloor>r2 * 1000000\<rfloor>, timestamp = toISOString d2\<rparr>"
  let ?s2 = "confirmBooking n2 e2 r2 d2 (confirmBooking n1 e1 r1 d1 s)"
  have b: "bookingDetails ?s2 = Some ?b"
    by (simp add: bookingDetails_confirmBooking selectedFlight_confirmBooking)
  have st: "localStorage ?s2 ''booking'' = Some (JSON_stringify (json_of_booking ?b))"
    by (simp add: localStorage_confirmBooking selectedFlight_confirmBooking)
  have p: "JSON_parse (JSON_stringify (json_of_booking ?b)) = Some (json_of_booking ?b)"
    by (rule JSON_roundtrip)
  have rd: "read_booking (json_of_booking ?b) = Some ?b" by (rule read_booking_json)
  have g: "json_get (json_of_booking ?b) ''passenger'' = Some (JString n2)"
    "json_get (json_of_booking ?b) ''email'' = Some (JString e2)"
    "json_get (json_of_booking ?b) ''pnr''
       = Some (JString (''PNR'' @ number_to_string \<lfloor>r2 * 1000000\<rfloor>))"
    "json_get (json_of_booking ?b) ''timestamp'' = Some (JString (toISOString d2))"
    by (simp_all add: json_of_booking_def)
  have eq: "localStorage ?s2 = localStorage (confirmBooking n2 e2 r2 d2 s)"
    by (simp add: localStorage_confirmBooking selectedFlight_confirmBooking)
  show ?thesis
    by (intro exI conjI) (rule refl, rule b, rule st, rule refl, rule p, rule rd, rule g(1),
        rule g(2), rule g(3), rule g(4), rule eq)
qed

theorem second_booking_overwrites_witness:
  "\<exists>txt v.
     localStorage
       (confirmBooking ''Bob'' ''b@y.org'' (1 / 2) a_moment
         (confirmBooking ''Alice'' ''a@x.com'' (1 / 4) a_moment
           (openBooking \<lparr>airline = ''IndiGo'', flight = ''6E305'', time = ''14:30'', price = 6500\<rparr>
              blank_page))) ''booking'' = Some txt \<and>
     JSON_parse txt = Some v \<and>
     read_booking v =
       Some \<lparr>passenger = ''Bob'', email = ''b@y.org'',
             booked_flight = Some \<lparr>airline = ''IndiGo'', flight = ''6E305'', time = ''14:30'', price = 6500\<rparr>,
             pnr = ''PNR500000'', timestamp = ''2025-10-12T08:30:05.042Z''\<rparr> \<and>
     json_get v ''passenger'' = Some (JString ''Bob'')"
proof -
  from second_booking_overwrites [of "''Bob''" "''b@y.org''"
      "openBooking \<lparr>airline = ''IndiGo'', flight = ''6E305'', time = ''14:30'', price = 6500\<rparr> blank_page"
      "1 / 2" a_moment "''Alice''" "''a@x.com''" "1 / 4" a_moment]
  obtain b2 content v where h:
    "b2 = \<lparr>passenger = ''Bob'', email = ''b@y.org'',
           booked_flight = selectedFlight
             (openBooking \<lparr>airline = ''IndiGo'', flight = ''6E305'', time = ''14:30'', price = 6500\<rparr>
                blank_page),
           pnr = ''PNR'' @ number_to_string \<lfloor>(1 / 2 :: real) * 1000000\<rfloor>,
           timestamp = toISOString a_moment\<rparr>"
    "localStorage
       (confirmBooking ''Bob'' ''b@y.org'' (1 / 2) a_moment
         (confirmBooking ''Alice'' ''a@x.com'' (1 / 4) a_moment
           (openBooking \<lparr>airline = ''IndiGo'', flight = ''6E305'', time = ''14:30'', price = 6500\<rparr>
              blank_page))) ''booking'' = Some content"
    "JSON_parse content = Some v" "read_booking v = Some b2"
    "json_get v ''passenger'' = Some (JString ''Bob'')"
    by blast
  have b2: "b2 = \<lparr>passenger = ''Bob'', email = ''b@y.org'',
      booked_flight = Some \<lparr>airline = ''IndiGo'', flight = ''6E305'', time = ''14:30'', price = 6500\<rparr>,
      pnr = ''PNR500000'', timestamp = ''2025-10-12T08:30:05.042Z''\<rparr>"
    by (simp add: h(1) openBooking_def number_500000 a_moment_iso)
  show ?thesis
    using h(2-5) by (intro exI [of _ content] exI [of _ v] conjI) (simp_all add: b2)
qed

text \<open>
  C8. After a call of \<open>confirmBooking\<close>, \<open>downloadReceipt\<close> offers a file whose
  content is the booking record as formatted JSON, one property on each line with an
  indentation of two spaces for each level; parsing it gives an object that, read as a
  booking record, is the record in memory, with its name, e-mail address, flight, code
  and timestamp; the timestamp is still a valid ISO-8601 timestamp; and the file is
  named \<open>booking_<code>.json\<close> after the confirmation code.
\<close>

theorem receipt_roundtrip:
  assumes "valid_date now"
  shows "\<exists>b s' txt v ts.
           b = \<lparr>passenger = name, email = email', booked_flight = selectedFlight s,
                pnr = ''PNR'' @ number_to_string \<lfloor>r * 1000000\<rfloor>, timestamp = toISOString now\<rparr> \<and>
           bookingDetails (confirmBooking name email' r now s) = Some b \<and>
           downloadReceipt (confirmBooking name email' r now s) = Inr s' \<and>
           payload (last (clicked s')) = Some txt \<and>
           txt = JSON_stringify_2 (json_of_booking b) \<and>
           txt = join [newline] (receipt_lines b) \<and>
           JSON_parse txt = Some v \<and> v = json_of_booking b \<and>
           read_booking v = Some b \<and>
           json_get v ''timestamp'' = Some (JString ts) \<and> iso8601 ts \<and>
           download (last (clicked s')) = ''booking_'' @ pnr b @ ''.json''"
proof -
  let ?s = "confirmBooking name email' r now s"
  let ?b = "\<lparr>passenger = name, email = email', booked_flight = selectedFlight s,
             pnr = ''PNR'' @ number_to_string \<lfloor>r * 1000000\<rfloor>, timestamp = toISOString now\<rparr>"
  let ?txt = "JSON_stringify_2 (json_of_booking ?b)"
  let ?l = "\<lparr>href = data_prefix @ encodeURIComponent ?txt, download = ''booking_'' @ pnr ?b @ ''.json''\<rparr>"
  have b: "bookingDetails ?s = Some ?b" by (rule bookingDetails_confirmBooking)
  have d: "downloadReceipt ?s = Inr (?s\<lparr>clicked := clicked ?s @ [?l]\<rparr>)"
    by (rule downloadReceipt_Some [OF b])
  have l: "last (clicked (?s\<lparr>clicked := clicked ?s @ [?l]\<rparr>)) = ?l" by simp
  have p: "payload ?l = Some ?txt" by (rule payload_receipt)
  have f: "?txt = join [newline] (receipt_lines ?b)" by (rule stringify_2_lines)
  have j: "JSON_parse ?txt = Some (json_of_booking ?b)" by (rule JSON_roundtrip_2)
  have rd: "read_booking (json_of_booking ?b) = Some ?b" by (rule read_booking_json)
  have g: "json_get (json_of_booking ?b) ''timestamp'' = Some (JString (toISOString now))"
    by (simp add: json_of_booking_def)
  have i: "iso8601 (toISOString now)" by (rule iso8601_toISOString [OF assms])
  have n: "download ?l = ''booking_'' @ pnr ?b @ ''.json''" by simp
  show ?thesis
    by (intro exI conjI) (rule refl, rule b, rule d, simp only: l p, rule refl, rule f, rule j,
        rule refl, rule rd, rule g, rule i, simp only: l n)
qed

theorem receipt_roundtrip_witness:
  "valid_date a_moment \<and>
   (\<exists>s' txt v.
      downloadReceipt
        (confirmBooking ''Alice'' ''a@x.com'' (1 / 2) a_moment
          (openBooking \<lparr>airline = ''IndiGo'', flight = ''6E305'', time = ''14:30'', price = 6500\<rparr>
             blank_page)) = Inr s' \<and>
      payload (last (clicked s')) = Some txt \<and>
      txt = join [newline]
        [''{'',
         ''  '' @ in_quotes ''passenger'' @ '': '' @ in_quotes ''Alice'' @ '','',
         ''  '' @ in_quotes ''email'' @ '': '' @ in_quotes ''a@x.com'' @ '','',
         ''  '' @ in_quotes ''flight'' @ '': {'',
         ''    '' @ in_quotes ''airline'' @ '': '' @ in_quotes ''IndiGo'' @ '','',
         ''    '' @ in_quotes ''flight'' @ '': '' @ in_quotes ''6E305'' @ '','',
         ''    '' @ in_quotes ''time'' @ '': '' @ in_quotes ''14:30'' @ '','',
         ''    '' @ in_quotes ''price'' @ '': 6500'',
         ''  },'',
         ''  '' @ in_quotes ''pnr'' @ '': '' @ in_quotes ''PNR500000'' @ '','',
         ''  '' @ in_quotes ''timestamp'' @ '': '' @ in_quotes ''2025-10-12T08:30:05.042Z'',
         ''}''] \<and>
      JSON_parse txt = Some v \<and>
      read_booking v =
        Some \<lparr>passenger = ''Alice'', email = ''a@x.com'',
              booked_flight = Some \<lparr>airline = ''IndiGo'', flight = ''6E305'', time = ''14:30'', price = 6500\<rparr>,
              pnr = ''PNR500000'', timestamp = ''2025-10-12T08:30:05.042Z''\<rparr> \<and>
      json_get v ''timestamp'' = Some (JString ''2025-10-12T08:30:05.042Z'') \<and>
      iso8601 ''2025-10-12T08:30:05.042Z'' \<and>
      download (last (clicked s')) = ''booking_PNR500000.json'')"
proof -
  let ?x = "\<lparr>airline = ''IndiGo'', flight = ''6E305'', time = ''14:30'', price = 6500\<rparr>"
  let ?r = "\<lparr>passenger = ''Alice'', email = ''a@x.com'', booked_flight = Some ?x,
             pnr = ''PNR500000'', timestamp = ''2025-10-12T08:30:05.042Z''\<rparr>"
  from receipt_roundtrip [OF valid_a_moment, of "''Alice''" "''a@x.com''" "openBooking ?x blank_page"
      "1 / 2"]
  obtain b s' content v stamp where h:
    "b = \<lparr>passenger = ''Alice'', email = ''a@x.com'',
          booked_flight = selectedFlight (openBooking ?x blank_page),
          pnr = ''PNR'' @ number_to_string \<lfloor>(1 / 2 :: real) * 1000000\<rfloor>,
          timestamp = toISOString a_moment\<rparr>"
    "downloadReceipt (confirmBooking ''Alice'' ''a@x.com'' (1 / 2) a_moment (openBooking ?x blank_page))
       = Inr s'"
    "payload (last (clicked s')) = Some content"
    "content = join [newline] (receipt_lines b)"
    "JSON_parse content = Some v" "read_booking v = Some b"
    "json_get v ''timestamp'' = Some (JString stamp)" "iso8601 stamp"
    "download (last (clicked s')) = ''booking_'' @ pnr b @ ''.json''"
    by blast
  have b: "b = ?r"
    by (simp add: h(1) openBooking_def number_500000 a_moment_iso)
  have v: "v = json_of_booking ?r"
    using h(5) by (simp add: h(4) b stringify_2_lines [symmetric] JSON_roundtrip_2)
  have stamp: "stamp = ''2025-10-12T08:30:05.042Z''"
    using h(7) by (simp add: v json_of_booking_def)
  have q: "quote ''Alice'' = in_quotes ''Alice''" "quote ''a@x.com'' = in_quotes ''a@x.com''"
    "quote ''IndiGo'' = in_quotes ''IndiGo''" "quote ''6E305'' = in_quotes ''6E305''"
    "quote ''14:30'' = in_quotes ''14:30''" "quote ''PNR500000'' = in_quotes ''PNR500000''"
    "quote ''2025-10-12T08:30:05.042Z'' = in_quotes ''2025-10-12T08:30:05.042Z''"
    by (simp_all add: quote_def in_quotes_def json_escape_def)
  have n: "number_to_string 6500 = ''6500''" by (simp add: digit_eval)
  have lines: "receipt_lines ?r =
        [''{'',
         ''  '' @ in_quotes ''passenger'' @ '': '' @ in_quotes ''Alice'' @ '','',
         ''  '' @ in_quotes ''email'' @ '': '' @ in_quotes ''a@x.com'' @ '','',
         ''  '' @ in_quotes ''flight'' @ '': {'',
         ''    '' @ in_quotes ''airline'' @ '': '' @ in_quotes ''IndiGo'' @ '','',
         ''    '' @ in_quotes ''flight'' @ '': '' @ in_quotes ''6E305'' @ '','',
         ''    '' @ in_quotes ''time'' @ '': '' @ in_quotes ''14:30'' @ '','',
         ''    '' @ in_quotes ''price'' @ '': 6500'',
         ''  },'',
         ''  '' @ in_quotes ''pnr'' @ '': '' @ in_quotes ''PNR500000'' @ '','',
         ''  '' @ in_quotes ''timestamp'' @ '': '' @ in_quotes ''2025-10-12T08:30:05.042Z'',
         ''}'']"
    by (simp add: receipt_lines_def q n)
  have c: "content = join [newline] (receipt_lines ?r)" by (simp only: h(4) b)
  show ?thesis
    using valid_a_moment h(2,3,5,8,9) h(6) [unfolded b] h(7) [unfolded stamp] c [unfolded lines]
    by (intro conjI exI [of _ s'] exI [of _ content] exI [of _ v]) (simp_all add: stamp b)
qed

text \<open>
  C10. After every call of \<open>confirmBooking\<close> the booking record in memory and the
  entry of the storage under the key \<open>booking\<close> agree: the stored text parses to an
  object that, read as a booking record, is the record in memory, with the name, the
  e-mail address, the selected flight, the code and the timestamp of the call.
  \<open>downloadReceipt\<close> on a page where they agree succeeds, changes neither of them,
  and they still agree. So they agree at every moment of a session at which there is a
  booking record in memory.
\<close>

theorem storage_agrees:
  "agrees (confirmBooking name email' r now s) \<and>
   (\<exists>txt v.
      bookingDetails (confirmBooking name email' r now s) =
        Some \<lparr>passenger = name, email = email', booked_flight = selectedFlight s,
              pnr = ''PNR'' @ number_to_string \<lfloor>r * 1000000\<rfloor>, timestamp = toISOString now\<rparr> \<and>
      localStorage (confirmBooking name email' r now s) ''booking'' = Some txt \<and>
      JSON_parse txt = Some v \<and>
      read_booking v =
        Some \<lparr>passenger = name, email = email', booked_flight = selectedFlight s,
              pnr = ''PNR'' @ number_to_string \<lfloor>r * 1000000\<rfloor>, timestamp = toISOString now\<rparr>) \<and>
   (agrees t \<longrightarrow>
     (\<exists>t'. downloadReceipt t = Inr t' \<and> bookingDetails t' = bookingDetails t \<and>
           localStorage t' = localStorage t \<and> agrees t')) \<and>
   (bookingDetails (run es (load p)) \<noteq> None \<longrightarrow> agrees (run es (load p)))"
proof (intro conjI impI)
  show "agrees (confirmBooking name email' r now s)" by (rule agrees_confirmBooking)
next
  let ?b = "\<lparr>passenger = name, email = email', booked_flight = selectedFlight s,
             pnr = ''PNR'' @ number_to_string \<lfloor>r * 1000000\<rfloor>, timestamp = toISOString now\<rparr>"
  have b: "bookingDetails (confirmBooking name email' r now s) = Some ?b"
    by (rule bookingDetails_confirmBooking)
  have st: "localStorage (confirmBooking name email' r now s) ''booking''
      = Some (JSON_stringify (json_of_booking ?b))"
    by (simp add: localStorage_confirmBooking)
  have p: "JSON_parse (JSON_stringify (json_of_booking ?b)) = Some (json_of_booking ?b)"
    by (rule JSON_roundtrip)
  have rd: "read_booking (json_of_booking ?b) = Some ?b" by (rule read_booking_json)
  show "\<exists>txt v.
      bookingDetails (confirmBooking name email' r now s) = Some ?b \<and>
      localStorage (confirmBooking name email' r now s) ''booking'' = Some txt \<and>
      JSON_parse txt = Some v \<and> read_booking v = Some ?b"
    by (intro exI conjI) (rule b, rule st, rule p, rule rd)
next
  assume a: "agrees t"
  then obtain b where b: "bookingDetails t = Some b"
    by (auto simp: agrees_def split: option.splits)
  show "\<exists>t'. downloadReceipt t = Inr t' \<and> bookingDetails t' = bookingDetails t \<and>
          localStorage t' = localStorage t \<and> agrees t'"
    using a by (simp add: downloadReceipt_Some [OF b] agrees_def b)
next
  assume "bookingDetails (run es (load p)) \<noteq> None"
  moreover have "bookingDetails (load p) \<noteq> None \<longrightarrow> agrees (load p)"
    by (simp add: load_def)
  ultimately show "agrees (run es (load p))"
    using agrees_run [of "load p" es] by blast
qed

theorem storage_agrees_witness:
  "agrees (confirmBooking ''Alice'' ''a@x.com'' (1 / 2) a_moment
     (openBooking \<lparr>airline = ''IndiGo'', flight = ''6E305'', time = ''14:30'', price = 6500\<rparr>
        blank_page)) \<and>
   (\<exists>t'. downloadReceipt (confirmBooking ''Alice'' ''a@x.com'' (1 / 2) a_moment
            (openBooking \<lparr>airline = ''IndiGo'', flight = ''6E305'', time = ''14:30'', price = 6500\<rparr>
               blank_page)) = Inr t' \<and>
         bookingDetails t' = bookingDetails (confirmBooking ''Alice'' ''a@x.com'' (1 / 2) a_moment
            (openBooking \<lparr>airline = ''IndiGo'', flight = ''6E305'', time = ''14:30'', price = 6500\<rparr>
               blank_page)) \<and>
         localStorage t' = localStorage (confirmBooking ''Alice'' ''a@x.com'' (1 / 2) a_moment
            (openBooking \<lparr>airline = ''IndiGo'', flight = ''6E305'', time = ''14:30'', price = 6500\<rparr>
               blank_page)) \<and>
         agrees t') \<and>
   bookingDetails
     (run [SelectOffer \<lparr>airline = ''IndiGo'', flight = ''6E305'', time = ''14:30'', price = 6500\<rparr>,
           ConfirmBooking ''Alice'' ''a@x.com'' (1 / 2) a_moment, DownloadReceipt] (load blank_page))
     \<noteq> None \<and>
   agrees
     (run [SelectOffer \<lparr>airline = ''IndiGo'', flight = ''6E305'', time = ''14:30'', price = 6500\<rparr>,
           ConfirmBooking ''Alice'' ''a@x.com'' (1 / 2) a_moment, DownloadReceipt] (load blank_page))"
proof -
  let ?x = "\<lparr>airline = ''IndiGo'', flight = ''6E305'', time = ''14:30'', price = 6500\<rparr>"
  let ?es = "[SelectOffer ?x, ConfirmBooking ''Alice'' ''a@x.com'' (1 / 2) a_moment, DownloadReceipt]"
  have b: "bookingDetails (run ?es (load blank_page)) \<noteq> None"
    by (simp add: downloadReceipt_def Let_def bookingDetails_confirmBooking)
  show ?thesis
    using storage_agrees [of "''Alice''" "''a@x.com''" "1 / 2" a_moment "openBooking ?x blank_page"
        "confirmBooking ''Alice'' ''a@x.com'' (1 / 2) a_moment (openBooking ?x blank_page)" ?es
        blank_page] b
    by blast
qed

end
